theory Spec2Isabelle
  imports Main "HOL-Library.Word" "HOL-Library.Log_Nat"
begin

unbundle bit_operations_syntax

section \<open>Go values used by the recorder and the players\<close>

text \<open>
  Go's \<^verbatim>\<open>int64\<close> (and \<^verbatim>\<open>time.Duration\<close>, an \<^verbatim>\<open>int64\<close> count of nanoseconds)
  is a 64-bit word: \<open>+\<close>, \<open>-\<close> and \<open>*\<close> wrap, \<open>sint\<close> reads the signed value.
\<close>

type_synonym int64 = "64 word"

definition Millisecond :: int64 where
  "Millisecond = 1000000"

subsection \<open>\<^verbatim>\<open>strconv.ParseInt(s, 10, 64)\<close>\<close>

text \<open>
  With base 10 given explicitly the accepted syntax is an optional sign followed by one or
  more decimal digits (no prefix, no underscores). A syntax error and a value outside
  \<open>[-2^63, 2^63 - 1]\<close> both return a non-nil error, which is \<open>None\<close> here: the players only
  test \<^verbatim>\<open>err != nil\<close>.
\<close>

definition is_digit :: "char \<Rightarrow> bool" where
  "is_digit c = (48 \<le> (of_char c :: int) \<and> (of_char c :: int) \<le> 57)"

definition digit_val :: "char \<Rightarrow> int" where
  "digit_val c = of_char c - 48"

fun digits_val :: "int \<Rightarrow> string \<Rightarrow> int" where
  "digits_val acc [] = acc"
| "digits_val acc (c # cs) = digits_val (acc * 10 + digit_val c) cs"

definition ParseUint :: "string \<Rightarrow> int option" where
  "ParseUint s =
     (if s = [] then None
      else if list_all is_digit s then Some (digits_val 0 s)
      else None)"

definition ParseInt :: "string \<Rightarrow> int64 option" where
  "ParseInt s =
     (case s of
        [] \<Rightarrow> None
      | c # cs \<Rightarrow>
          (let neg = (c = CHR ''-'');
               body = (if c = CHR ''+'' then cs else if c = CHR ''-'' then cs else s)
           in case ParseUint body of
                None \<Rightarrow> None
              | Some un \<Rightarrow>
                  if neg then (if 2 ^ 63 < un then None else Some (word_of_int (- un)))
                  else (if 2 ^ 63 \<le> un then None else Some (word_of_int un))))"

subsection \<open>\<^verbatim>\<open>encoding/csv\<close>: \<^verbatim>\<open>Reader.ReadAll\<close>\<close>

text \<open>
  A log file is taken as the sequence of records the CSV lexer yields, each a list of
  fields. \<^verbatim>\<open>csv.NewReader\<close> leaves \<^verbatim>\<open>FieldsPerRecord\<close> at 0: the reader then takes the
  field count of the first record as the count every later record must have, and
  \<^verbatim>\<open>ReadAll\<close> returns \<^verbatim>\<open>(nil, ErrFieldCount)\<close> at the first record that differs.
\<close>

datatype csv_error = ErrFieldCount

definition ReadAll :: "string list list \<Rightarrow> csv_error + string list list" where
  "ReadAll recs =
     (case recs of
        [] \<Rightarrow> Inr []
      | h # rest \<Rightarrow>
          if list_all (\<lambda>r. length r = length h) rest then Inr recs else Inl ErrFieldCount)"

subsection \<open>\<^verbatim>\<open>float64\<close>\<close>

text \<open>
  A finite \<^verbatim>\<open>float64\<close> is the rational it denotes. \<open>round_f64 q\<close> is the double nearest
  to \<open>q\<close>, ties to the even significand (IEEE 754 round-to-nearest-even, the rounding of
  Go's conversions, \<open>/\<close> and \<open>*\<close>): with \<open>2^e \<le> |q| < 2^(e+1)\<close> the doubles around
  \<open>q\<close> are the multiples of \<open>2^(e-52)\<close>. The exponent is not bounded here, so the
  function is the \<^verbatim>\<open>float64\<close> rounding for \<open>q = 0\<close> and for
  \<open>2^-1022 \<le> |q| < 2^1024\<close>, where doubles are normal and finite.
\<close>

definition rne :: "rat \<Rightarrow> int" where
  "rne q =
     (let f = \<lfloor>q\<rfloor>; r = q - of_int f
      in if r < 1 / 2 then f
         else if 1 / 2 < r then f + 1
         else if even f then f
         else f + 1)"

definition ilog2 :: "rat \<Rightarrow> int" where
  "ilog2 q = (if 1 \<le> q then bitlen \<lfloor>q\<rfloor> - 1 else - bitlen (\<lceil>1 / q\<rceil> - 1))"

definition round_f64 :: "rat \<Rightarrow> rat" where
  "round_f64 q =
     (if q = 0 then 0
      else (let u = 2 powi (ilog2 \<bar>q\<bar> - 52) in of_int (rne (q / u)) * u))"

definition f64_of_int :: "int \<Rightarrow> rat" where
  "f64_of_int n = round_f64 (of_int n)"

definition f64_div :: "rat \<Rightarrow> rat \<Rightarrow> rat" where
  "f64_div a b = round_f64 (a / b)"

definition f64_mul :: "rat \<Rightarrow> rat \<Rightarrow> rat" where
  "f64_mul a b = round_f64 (a * b)"

text \<open>\<^verbatim>\<open>int(f)\<close> discards the fraction (truncation toward zero).\<close>

definition f64_to_int :: "rat \<Rightarrow> int" where
  "f64_to_int f = (if 0 \<le> f then \<lfloor>f\<rfloor> else \<lceil>f\<rceil>)"

subsection \<open>\<^verbatim>\<open>fmt.Sprintf\<close> with \<^verbatim>\<open>%d\<close> and \<^verbatim>\<open>%.8f\<close>\<close>

definition digit_char :: "int \<Rightarrow> char" where
  "digit_char n = char_of (48 + n)"

function digits_of :: "int \<Rightarrow> string" where
  "digits_of n =
     (if n < 10 then [digit_char n] else digits_of (n div 10) @ [digit_char (n mod 10)])"
  by pat_completeness auto
termination
  by (relation "measure nat") auto

declare digits_of.simps [simp del]

definition Sprintf_d :: "int64 \<Rightarrow> string" where
  "Sprintf_d t =
     (if sint t < 0 then CHR ''-'' # digits_of (- sint t) else digits_of (sint t))"

text \<open>
  \<^verbatim>\<open>%.8f\<close> prints the exact value of the double rounded to 8 decimals, ties to even:
  \<open>fixed8 v\<close> is the printed number counted in units of \<open>10^-8\<close>.
\<close>

definition fixed8 :: "rat \<Rightarrow> int" where
  "fixed8 v = rne (v * 10 ^ 8)"

text \<open>The last \<open>k\<close> decimal digits of \<open>m\<close>, with leading zeros.\<close>

fun fixed_digits :: "nat \<Rightarrow> int \<Rightarrow> string" where
  "fixed_digits 0 m = []"
| "fixed_digits (Suc k) m = fixed_digits k (m div 10) @ [digit_char (m mod 10)]"

definition frac8 :: "int \<Rightarrow> string" where
  "frac8 m = fixed_digits 8 m"

definition Sprintf_8f :: "rat \<Rightarrow> string" where
  "Sprintf_8f v =
     (let a = \<bar>fixed8 v\<bar>
      in (if v < 0 then ''-'' else []) @ digits_of (a div 10 ^ 8) @ ''.'' @ frac8 (a mod 10 ^ 8))"

subsection \<open>\<^verbatim>\<open>strconv.ParseFloat\<close> on fixed-point decimals\<close>

text \<open>
  \<^verbatim>\<open>ParseFloat\<close> returns the double nearest to the decimal it reads. \<open>ParseFloat_dec\<close> is
  that function on the fixed-point fragment of its syntax: an optional sign, digits, and
  optionally a point and more digits, with a digit somewhere. Go accepts more (exponents,
  hexadecimal, \<^verbatim>\<open>Inf\<close>, \<^verbatim>\<open>NaN\<close>, underscores); the players below take the parser as a
  parameter and \<open>ParseFloat_dec\<close> instantiates it on concrete logs.
\<close>

definition ParseFloat_dec :: "string \<Rightarrow> rat option" where
  "ParseFloat_dec s =
     (let neg = (take 1 s = ''-'');
          body = (if take 1 s = ''-'' then drop 1 s else if take 1 s = ''+'' then drop 1 s else s);
          ip = takeWhile is_digit body;
          rest = dropWhile is_digit body;
          fp = drop 1 rest;
          mag = (of_int (digits_val 0 (ip @ fp)) :: rat) / 10 ^ length fp
      in if ip @ fp = [] then None
         else if rest = [] then Some (round_f64 (if neg then - mag else mag))
         else if take 1 rest = ''.'' then
           (if list_all is_digit fp then Some (round_f64 (if neg then - mag else mag)) else None)
         else None)"

subsection \<open>\<^verbatim>\<open>strconv.Atoi\<close>\<close>

text \<open>\<^verbatim>\<open>Atoi(s)\<close> is \<^verbatim>\<open>ParseInt(s, 10, 0)\<close> converted to \<^verbatim>\<open>int\<close>, 64 bits wide here.\<close>

definition Atoi :: "string \<Rightarrow> int option" where
  "Atoi s = map_option sint (ParseInt s)"

section \<open>The Player\<close>

text \<open>
  The repository has a player of unit-normalised logs (\<^verbatim>\<open>src/unnamed/part_002\<close>), which
  goes with \<^verbatim>\<open>recorder/main.go\<close>, and a player of raw pixel logs (the second program of
  \<^verbatim>\<open>src/unnamed/part_001\<close>). What a player does is a trace: the diagnostics it logs for
  rows it skips, the durations it passes to \<^verbatim>\<open>time.Sleep\<close> and the positions it passes
  to \<^verbatim>\<open>robotgo.Move\<close>, in program order. The informational lines (\<^verbatim>\<open>Starting mouse
  playback...\<close>, the echo of each move on standard output) are not part of the trace.
\<close>

datatype diag =
    SkipMalformed "string list"
  | BadTimestamp string
  | BadX string
  | BadY string

datatype event =
    Diag diag
  | Sleep int64
  | Move int int

subsection \<open>The conversions between logical and unit-normalised coordinates\<close>

text \<open>
  The recorder's \<^verbatim>\<open>float64(mouseX) / float64(logicalWidth)\<close> and the player's
  \<^verbatim>\<open>int(normX * float64(logicalWidth))\<close>.
\<close>

definition normalize :: "int \<Rightarrow> int \<Rightarrow> rat" where
  "normalize mouse logical = f64_div (f64_of_int mouse) (f64_of_int logical)"

definition denormalize :: "rat \<Rightarrow> int \<Rightarrow> int" where
  "denormalize normX logical = f64_to_int (f64_mul normX (f64_of_int logical))"

text \<open>
  A coordinate through the log: normalised on a screen dimension \<open>w\<close>, printed with
  \<^verbatim>\<open>%.8f\<close>, read back by \<^verbatim>\<open>ParseFloat\<close> as the double nearest to the printed decimal, and
  converted on a screen dimension \<open>w'\<close>.
\<close>

definition replay :: "int \<Rightarrow> int \<Rightarrow> int \<Rightarrow> int" where
  "replay mouse w w' =
     denormalize (round_f64 (of_int (fixed8 (normalize mouse w)) / 10 ^ 8)) w'"

subsection \<open>The rows\<close>

text \<open>
  Lines 42 to 62 and 72 to 73 of \<^verbatim>\<open>part_002\<close>: the checks that make the player skip a row,
  and the position it moves to. \<^verbatim>\<open>strconv.ParseFloat\<close> and the arithmetic of
  \<^verbatim>\<open>int(normX * float64(logicalWidth))\<close> are parameters: \<open>pf\<close> parses a field to a
  float of type \<open>'f\<close> or fails, \<open>dn v w\<close> is the integer conversion of \<open>v\<close> on a
  screen dimension \<open>w\<close>.
\<close>

definition parse_norm ::
  "(string \<Rightarrow> 'f option) \<Rightarrow> ('f \<Rightarrow> int \<Rightarrow> int) \<Rightarrow> int \<Rightarrow> int \<Rightarrow>
   string list \<Rightarrow> diag + (int64 \<times> int \<times> int)" where
  "parse_norm pf dn logicalWidth logicalHeight record =
     (if length record = 3 then
        (case ParseInt (record ! 0) of
           None \<Rightarrow> Inl (BadTimestamp (record ! 0))
         | Some timestamp \<Rightarrow>
             (case pf (record ! 1) of
                None \<Rightarrow> Inl (BadX (record ! 1))
              | Some normX \<Rightarrow>
                  (case pf (record ! 2) of
                     None \<Rightarrow> Inl (BadY (record ! 2))
                   | Some normY \<Rightarrow>
                       Inr (timestamp, dn normX logicalWidth, dn normY logicalHeight))))
      else Inl (SkipMalformed record))"

text \<open>
  Lines 180 to 200 of \<^verbatim>\<open>part_001\<close>: the same checks in the player of raw logs, which
  moves to the integers it reads.
\<close>

definition parse_raw :: "string list \<Rightarrow> diag + (int64 \<times> int \<times> int)" where
  "parse_raw record =
     (if length record = 3 then
        (case ParseInt (record ! 0) of
           None \<Rightarrow> Inl (BadTimestamp (record ! 0))
         | Some timestamp \<Rightarrow>
             (case Atoi (record ! 1) of
                None \<Rightarrow> Inl (BadX (record ! 1))
              | Some x \<Rightarrow>
                  (case Atoi (record ! 2) of
                     None \<Rightarrow> Inl (BadY (record ! 2))
                   | Some y \<Rightarrow> Inr (timestamp, x, y))))
      else Inl (SkipMalformed record))"

subsection \<open>The playback loop\<close>

text \<open>\<^verbatim>\<open>time.Duration(timestamp-lastTimestamp) * time.Millisecond\<close>, in wrapping \<^verbatim>\<open>int64\<close>.\<close>

definition delay :: "int64 \<Rightarrow> int64 \<Rightarrow> int64" where
  "delay lastTimestamp timestamp = (timestamp - lastTimestamp) * Millisecond"

text \<open>
  The loop over \<^verbatim>\<open>records\<close>, the same in both players: \<open>i\<close> is the index of the row
  in the slice and \<open>lastTimestamp\<close> the variable of that name. A skipped row leaves
  \<open>lastTimestamp\<close> as it is and still advances \<open>i\<close>.
\<close>

fun play_rows ::
  "(string list \<Rightarrow> diag + (int64 \<times> int \<times> int)) \<Rightarrow> nat \<Rightarrow> int64 \<Rightarrow> string list list \<Rightarrow>
   event list" where
  "play_rows parse i lastTimestamp [] = []"
| "play_rows parse i lastTimestamp (record # records) =
     (case parse record of
        Inl d \<Rightarrow> Diag d # play_rows parse (Suc i) lastTimestamp records
      | Inr (timestamp, x, y) \<Rightarrow>
          (if 0 < i then [Sleep (delay lastTimestamp timestamp)] else []) @
          Move x y # play_rows parse (Suc i) timestamp records)"

datatype outcome =
    Fatal csv_error
  | Played "event list"

text \<open>
  \<^verbatim>\<open>main\<close>: \<^verbatim>\<open>ReadAll\<close>, \<^verbatim>\<open>log.Fatalf\<close> on its error, the first record dropped without a
  look at it, then the loop from \<open>i = 0\<close> with \<open>lastTimestamp = 0\<close>.
\<close>

definition play_file ::
  "(string list \<Rightarrow> diag + (int64 \<times> int \<times> int)) \<Rightarrow> string list list \<Rightarrow> outcome" where
  "play_file parse file =
     (case ReadAll file of
        Inl e \<Rightarrow> Fatal e
      | Inr records \<Rightarrow> Played (play_rows parse 0 0 (drop 1 records)))"

definition player ::
  "(string \<Rightarrow> 'f option) \<Rightarrow> ('f \<Rightarrow> int \<Rightarrow> int) \<Rightarrow> int \<Rightarrow> int \<Rightarrow>
   string list list \<Rightarrow> outcome" where
  "player pf dn logicalWidth logicalHeight file =
     play_file (parse_norm pf dn logicalWidth logicalHeight) file"

definition player_raw :: "string list list \<Rightarrow> outcome" where
  "player_raw file = play_file parse_raw file"

subsection \<open>Reading a trace\<close>

text \<open>
  \<^verbatim>\<open>time.Sleep(d)\<close> returns at once when \<open>d\<close> is zero or negative and otherwise pauses for
  \<open>d\<close> nanoseconds: \<open>sleep_ns d\<close> is the pause asked for.
\<close>

definition sleep_ns :: "int64 \<Rightarrow> int" where
  "sleep_ns d = (if 0 < sint d then sint d else 0)"

fun total_sleep :: "event list \<Rightarrow> int" where
  "total_sleep [] = 0"
| "total_sleep (Sleep d # es) = sleep_ns d + total_sleep es"
| "total_sleep (e # es) = total_sleep es"

fun moves :: "event list \<Rightarrow> (int \<times> int) list" where
  "moves [] = []"
| "moves (Move x y # es) = (x, y) # moves es"
| "moves (e # es) = moves es"

fun diags :: "event list \<Rightarrow> diag list" where
  "diags [] = []"
| "diags (Diag d # es) = d # diags es"
| "diags (e # es) = diags es"

fun events_of :: "outcome \<Rightarrow> event list" where
  "events_of (Fatal e) = []"
| "events_of (Played es) = es"

text \<open>The rows of a log that a row parser accepts, and the diagnostics of the others.\<close>

fun parsed ::
  "(string list \<Rightarrow> diag + (int64 \<times> int \<times> int)) \<Rightarrow> string list list \<Rightarrow>
   (int64 \<times> int \<times> int) list" where
  "parsed parse [] = []"
| "parsed parse (r # rs) =
     (case parse r of Inl d \<Rightarrow> parsed parse rs | Inr s \<Rightarrow> s # parsed parse rs)"

fun skipped ::
  "(string list \<Rightarrow> diag + (int64 \<times> int \<times> int)) \<Rightarrow> string list list \<Rightarrow> diag list" where
  "skipped parse [] = []"
| "skipped parse (r # rs) =
     (case parse r of Inl d \<Rightarrow> d # skipped parse rs | Inr s \<Rightarrow> skipped parse rs)"

section \<open>The Recorder\<close>

subsection \<open>\<^verbatim>\<open>csv.Writer\<close> over \<^verbatim>\<open>bufio.Writer\<close> over the file\<close>

text \<open>
  \<^verbatim>\<open>csv.NewWriter(file)\<close> wraps the file in a \<^verbatim>\<open>bufio.Writer\<close> of the default size, 4096
  bytes. A byte written goes to the buffer; when the buffer is full it is first written to
  the file. \<^verbatim>\<open>Flush\<close> writes the buffer to the file. The file takes every write (no disk
  error), so \<^verbatim>\<open>Write\<close> returns nil. \<open>disk\<close> is what a process killed at that point leaves
  in the file.
\<close>

record writer =
  disk :: string
  pending :: string

definition NewWriter :: writer where
  "NewWriter = \<lparr>disk = [], pending = []\<rparr>"

definition bufio_put :: "char \<Rightarrow> writer \<Rightarrow> writer" where
  "bufio_put c w =
     (if length (pending w) < 4096 then w\<lparr>pending := pending w @ [c]\<rparr>
      else w\<lparr>disk := disk w @ pending w, pending := [c]\<rparr>)"

definition Flush :: "writer \<Rightarrow> writer" where
  "Flush w = w\<lparr>disk := disk w @ pending w, pending := []\<rparr>"

text \<open>
  A record whose fields need no quoting (no comma, quote, line break or leading space in
  them: the fields of the recorder are letters, digits, signs, points and underscores) is
  written as its fields joined by commas, then a line feed.
\<close>

fun join_comma :: "string list \<Rightarrow> string" where
  "join_comma [] = []"
| "join_comma [f] = f"
| "join_comma (f # g # fs) = f @ CHR '','' # join_comma (g # fs)"

definition csv_line :: "string list \<Rightarrow> string" where
  "csv_line row = join_comma row @ [CHR 0x0A]"

definition csv_Write :: "string list \<Rightarrow> writer \<Rightarrow> writer" where
  "csv_Write row w = fold bufio_put (csv_line row) w"

subsection \<open>One tick\<close>

text \<open>
  What the loop meets at a tick: the elapsed milliseconds \<^verbatim>\<open>t.Sub(startTime).Milliseconds()\<close>,
  the pointer position, whether the capture, the PNG encoding and the debug file succeed,
  and what the estimator answers: an error (a failure or the context's deadline), a text
  (given as \<^verbatim>\<open>strings.Split(strings.TrimSpace(text), ",")\<close>), or a response without text.
\<close>

datatype est_result =
    EstError
  | EstCoords "string list"
  | EstNoText

record tick =
  offset :: int64
  mouseX :: int
  mouseY :: int
  captured :: bool
  encoded :: bool
  saved :: bool
  estimate :: est_result

record geometry =
  logicalWidth :: int
  logicalHeight :: int
  physicalWidth :: int
  physicalHeight :: int

datatype step = CaptureRect | EncodePng | WriteDebugFile | GenerateContent

text \<open>
  The trace of the sampler's goroutine: rows passed to \<^verbatim>\<open>writer.Write\<close>, rows echoed on
  standard output, collaborators called and waited for, failures logged, the cursor mark
  drawn, the comparison logged, and the estimator started in a goroutine of its own that
  nobody waits for.
\<close>

datatype rec_event =
    Append "string list"
  | Echo "string list"
  | Call step
  | Failed step
  | Draw int int
  | Compared
  | Go_GenerateContent

text \<open>
  \<^verbatim>\<open>%.8f\<close> of \<^verbatim>\<open>float64(mouse) / float64(logical)\<close>. A zero dimension gives an infinity or a
  NaN, a zero position on a negative dimension gives the negative zero.
\<close>

definition norm_field :: "int \<Rightarrow> int \<Rightarrow> string" where
  "norm_field mouse logical =
     (if logical = 0 then
        (if mouse = 0 then ''NaN'' else if 0 < mouse then ''+Inf'' else ''-Inf'')
      else if mouse = 0 \<and> logical < 0 then ''-0.00000000''
      else Sprintf_8f (normalize mouse logical))"

definition sample_row :: "geometry \<Rightarrow> tick \<Rightarrow> string list" where
  "sample_row g tk =
     [Sprintf_d (offset tk),
      norm_field (mouseX tk) (logicalWidth g),
      norm_field (mouseY tk) (logicalHeight g)]"

text \<open>\<^verbatim>\<open>int(float64(mouseX) * xScale)\<close> with \<^verbatim>\<open>xScale = float64(physical) / float64(logical)\<close>.\<close>

definition draw_at :: "int \<Rightarrow> int \<Rightarrow> int \<Rightarrow> int" where
  "draw_at mouse physical logical =
     f64_to_int (f64_mul (f64_of_int mouse) (f64_div (f64_of_int physical) (f64_of_int logical)))"

text \<open>The tick handler of \<^verbatim>\<open>recorder/main.go\<close>, lines 82 to 140.\<close>

definition on_tick :: "geometry \<Rightarrow> tick \<Rightarrow> rec_event list" where
  "on_tick g tk =
     [Append (sample_row g tk), Echo (sample_row g tk), Call CaptureRect] @
     (if captured tk then
        [Draw (draw_at (mouseX tk) (physicalWidth g) (logicalWidth g))
              (draw_at (mouseY tk) (physicalHeight g) (logicalHeight g)),
         Call EncodePng] @
        (if encoded tk then
           [Call WriteDebugFile] @
           (if saved tk then [] else [Failed WriteDebugFile]) @
           [Go_GenerateContent]
         else [Failed EncodePng])
      else [Failed CaptureRect])"

text \<open>
  The tick handler of the recorder that compares the estimate with the ground truth,
  \<^verbatim>\<open>src/unnamed/part_000\<close>, lines 84 to 164: the same row first, then the estimator called
  and waited for in the sampler's goroutine.
\<close>

definition on_tick_compare :: "geometry \<Rightarrow> tick \<Rightarrow> rec_event list" where
  "on_tick_compare g tk =
     [Append (sample_row g tk), Call CaptureRect] @
     (if captured tk then
        [Draw (draw_at (mouseX tk) (physicalWidth g) (logicalWidth g))
              (draw_at (mouseY tk) (physicalHeight g) (logicalHeight g)),
         Call EncodePng] @
        (if encoded tk then
           [Call WriteDebugFile] @
           (if saved tk then [] else [Failed WriteDebugFile]) @
           [Call GenerateContent] @
           (case estimate tk of
              EstError \<Rightarrow> [Failed GenerateContent]
            | EstCoords coords \<Rightarrow> [Compared]
            | EstNoText \<Rightarrow> [Compared])
         else [Failed EncodePng])
      else [Failed CaptureRect])"

text \<open>
  The tick handler of the recorder of raw estimates, the first program of
  \<^verbatim>\<open>src/unnamed/part_001\<close>, lines 82 to 140 (its header is \<^verbatim>\<open>timestamp, x, y\<close>): the only
  rows of its log are the estimator's answers that split in two at a comma.
\<close>

definition on_tick_estimate :: "geometry \<Rightarrow> tick \<Rightarrow> rec_event list" where
  "on_tick_estimate g tk =
     [Call CaptureRect] @
     (if captured tk then
        [Draw (draw_at (mouseX tk) (physicalWidth g) (logicalWidth g))
              (draw_at (mouseY tk) (physicalHeight g) (logicalHeight g)),
         Call EncodePng] @
        (if encoded tk then
           [Call WriteDebugFile] @
           (if saved tk then [] else [Failed WriteDebugFile]) @
           [Call GenerateContent] @
           (case estimate tk of
              EstError \<Rightarrow> [Failed GenerateContent]
            | EstCoords coords \<Rightarrow>
                (if length coords = 2 then
                   [Append [Sprintf_d (offset tk), coords ! 0, coords ! 1],
                    Echo [Sprintf_d (offset tk), coords ! 0, coords ! 1]]
                 else [])
            | EstNoText \<Rightarrow> [])
         else [Failed EncodePng])
      else [Failed CaptureRect])"

subsection \<open>A recording run\<close>

definition header :: "string list" where
  "header = [''timestamp'', ''norm_x'', ''norm_y'']"

text \<open>
  \<^verbatim>\<open>recorder/main.go\<close> after a successful start (credential, client, file): the header,
  then the handler at each tick the \<^verbatim>\<open>select\<close> receives until the context is done.
\<close>

definition recorder :: "geometry \<Rightarrow> tick list \<Rightarrow> rec_event list" where
  "recorder g ticks = Append header # concat (map (on_tick g) ticks)"

fun appended :: "rec_event list \<Rightarrow> string list list" where
  "appended [] = []"
| "appended (Append r # es) = r # appended es"
| "appended (e # es) = appended es"

text \<open>
  The writer after the rows of a trace, which is the state a kill finds, and after the
  deferred \<^verbatim>\<open>writer.Flush()\<close> that runs when \<^verbatim>\<open>main\<close> returns.
\<close>

definition written :: "rec_event list \<Rightarrow> writer" where
  "written evs = fold csv_Write (appended evs) NewWriter"

definition returned :: "rec_event list \<Rightarrow> writer" where
  "returned evs = Flush (written evs)"

text \<open>Whether the sampler's goroutine waits for the estimator in a trace.\<close>

definition awaits_estimator :: "rec_event list \<Rightarrow> bool" where
  "awaits_estimator evs = (Call GenerateContent \<in> set evs)"

section \<open>Properties of the playback loop\<close>

lemma sint_Millisecond: "sint Millisecond = 1000000"
  by (simp add: Millisecond_def)

text \<open>
  As long as the difference of two offsets, in nanoseconds, fits in an \<^verbatim>\<open>int64\<close>, the
  duration the loop computes is that difference.
\<close>

lemma sint_delay:
  assumes "- 9223372036854 \<le> sint t2 - sint t1" and "sint t2 - sint t1 \<le> 9223372036854"
  shows "sint (delay t1 t2) = (sint t2 - sint t1) * 1000000"
proof -
  have d: "sint (t2 - t1) = sint t2 - sint t1"
    using assms by (simp add: sint_word_diff signed_take_bit_int_eq_self)
  have "sint (delay t1 t2) = signed_take_bit 63 ((sint t2 - sint t1) * 1000000)"
    by (simp add: delay_def sint_word_mult d sint_Millisecond)
  also have "\<dots> = (sint t2 - sint t1) * 1000000"
    using assms by (intro signed_take_bit_int_eq_self) simp_all
  finally show ?thesis .
qed

lemma play_rows_skipped:
  "map parse bad = map Inl ds \<Longrightarrow>
   play_rows parse i l (bad @ rs) = map Diag ds @ play_rows parse (i + length bad) l rs"
proof (induction bad arbitrary: i ds)
  case Nil
  then show ?case by simp
next
  case (Cons r bad)
  then obtain d ds' where ds: "ds = d # ds'" "parse r = Inl d" "map parse bad = map Inl ds'"
    by (cases ds) auto
  with Cons.IH [of ds' "Suc i"] show ?case by simp
qed

text \<open>
  Every row is either skipped with one diagnostic or played with one positioning command,
  in the order of the file, whatever the index and the last offset are.
\<close>

lemma moves_play_rows:
  "moves (play_rows parse i l rows) = map snd (parsed parse rows)"
proof (induction rows arbitrary: i l)
  case Nil
  then show ?case by simp
next
  case (Cons r rows)
  show ?case
  proof (cases "parse r")
    case (Inl d)
    then show ?thesis using Cons.IH by simp
  next
    case (Inr s)
    obtain t x y where "s = (t, x, y)" by (cases s)
    with Inr show ?thesis using Cons.IH by simp
  qed
qed

lemma diags_play_rows:
  "diags (play_rows parse i l rows) = skipped parse rows"
proof (induction rows arbitrary: i l)
  case Nil
  then show ?case by simp
next
  case (Cons r rows)
  show ?case
  proof (cases "parse r")
    case (Inl d)
    then show ?thesis using Cons.IH by simp
  next
    case (Inr s)
    obtain t x y where "s = (t, x, y)" by (cases s)
    with Inr show ?thesis using Cons.IH by simp
  qed
qed

lemma total_sleep_running:
  assumes "0 < i" and "map parse rows = map Inr samples"
    and "sorted (sint l # map (\<lambda>s. sint (fst s)) samples)"
    and "0 \<le> sint l"
    and "list_all (\<lambda>s. sint (fst s) \<le> 9223372036854) samples"
  shows "total_sleep (play_rows parse i l rows) =
           (sint (last (l # map fst samples)) - sint l) * 1000000"
  using assms
proof (induction rows arbitrary: i l samples)
  case Nil
  then show ?case by simp
next
  case (Cons r rows)
  then obtain s ss where ss: "samples = s # ss" "parse r = Inr s" "map parse rows = map Inr ss"
    by (cases samples) auto
  obtain t x y where s: "s = (t, x, y)" by (cases s)
  have le: "sint l \<le> sint t" and bt: "sint t \<le> 9223372036854"
    using Cons.prems ss s by auto
  have d: "sint (delay l t) = (sint t - sint l) * 1000000"
    using le bt Cons.prems(4) by (intro sint_delay) simp_all
  have sl: "sleep_ns (delay l t) = (sint t - sint l) * 1000000"
    using d le by (simp add: sleep_ns_def)
  have IH: "total_sleep (play_rows parse (Suc i) t rows) =
      (sint (last (t # map fst ss)) - sint t) * 1000000"
    using Cons.prems ss s le by (intro Cons.IH) auto
  show ?case
    using Cons.prems(1) ss s sl IH by (simp add: algebra_simps)
qed

section \<open>The claims about the Player\<close>

text \<open>
  Claim C1: a log with one malformed row among ten rows plays the nine valid rows in order,
  with a single diagnostic, and the malformed row is not fatal to the load. For a row with
  the wrong field count the code does not do this. The log below has a header of three
  fields and ten rows, the fourth with two fields: \<^verbatim>\<open>ReadAll\<close> rejects the file at that
  row, \<^verbatim>\<open>main\<close> ends in \<^verbatim>\<open>log.Fatalf\<close>, and no position is issued, for every float parser
  and every screen. The loop's own test of the field count, which would skip the row, is
  never reached with such a file.
\<close>

theorem C1_short_row_aborts_playback:
  "player pf dn w h
     [header,
      [''1000'', ''0.10000000'', ''0.10000000''],
      [''2000'', ''0.20000000'', ''0.20000000''],
      [''3000'', ''0.30000000'', ''0.30000000''],
      [''4000'', ''0.40000000''],
      [''5000'', ''0.50000000'', ''0.50000000''],
      [''6000'', ''0.60000000'', ''0.60000000''],
      [''7000'', ''0.70000000'', ''0.70000000''],
      [''8000'', ''0.80000000'', ''0.80000000''],
      [''9000'', ''0.90000000'', ''0.90000000''],
      [''10000'', ''0.95000000'', ''0.95000000'']]
   = Fatal ErrFieldCount"
  by (simp add: player_def play_file_def ReadAll_def header_def)

text \<open>
  Claim C5: the player sleeps the difference of the offsets before each positioning
  command except the first, also when leading rows were skipped. The code tests the index
  of the row, not whether a command was issued: with a first row that is skipped, the
  second row has index 1 and the player sleeps its whole offset (here 1000 ms, measured
  from the initial \<open>lastTimestamp = 0\<close>) before the first command. Both players do.
\<close>

theorem C5_sleep_before_first_move:
  "player ParseFloat_dec denormalize 1920 1080
     [header,
      [''abc'', ''0.50000000'', ''0.50000000''],
      [''1000'', ''0.50000000'', ''0.50000000'']]
   = Played [Diag (BadTimestamp ''abc''), Sleep 1000000000, Move 960 540]
   \<and> player_raw
     [[''timestamp'', ''x'', ''y''],
      [''abc'', ''960'', ''540''],
      [''1000'', ''960'', ''540'']]
   = Played [Diag (BadTimestamp ''abc''), Sleep 1000000000, Move 960 540]
   \<and> sleep_ns 1000000000 = 1000000000"
  by code_simp

text \<open>
  Claim C6, as stated: a full playback takes the last sample's offset, within 50 ms.
  A log with offsets 1000, 2000 and 3000 ms, as the recorder's one-second ticker writes
  them, is played with sleeps of 2000 ms in all: there is no sleep before the first
  command, so the playback is shorter than the last offset by the first one.
\<close>

theorem C6_playback_shorter_than_last_offset:
  "\<not> \<bar>total_sleep (events_of (player ParseFloat_dec denormalize 1920 1080
       [header,
        [''1000'', ''0.10000000'', ''0.10000000''],
        [''2000'', ''0.20000000'', ''0.20000000''],
        [''3000'', ''0.30000000'', ''0.30000000'']])) - 3000 * 1000000\<bar> \<le> 50 * 1000000"
  by code_simp

text \<open>
  Claim C6, amended: for every log whose rows all parse, with offsets that do not decrease
  and lie between 0 and 9223372036854 ms, the sleeps of a full playback add up to exactly
  the last offset minus the first, in nanoseconds. Each sleep is the difference of two
  offsets read from the log, so the sum telescopes and no rounding accumulates; the time
  the instructions themselves take is not measured by the player and is not part of the
  statement.
\<close>

theorem C6_total_sleep_is_last_minus_first:
  assumes "map parse rows = map Inr samples" and "samples \<noteq> []"
    and "sorted (map (\<lambda>s. sint (fst s)) samples)"
    and "list_all (\<lambda>s. 0 \<le> sint (fst s) \<and> sint (fst s) \<le> 9223372036854) samples"
  shows "total_sleep (play_rows parse 0 0 rows) =
           (sint (fst (last samples)) - sint (fst (hd samples))) * 1000000"
proof -
  obtain s ss where ss: "samples = s # ss" using assms(2) by (cases samples) auto
  then obtain r rs where rs: "rows = r # rs" "parse r = Inr s" "map parse rs = map Inr ss"
    using assms(1) by (cases rows) auto
  obtain t x y where s: "s = (t, x, y)" by (cases s)
  have "total_sleep (play_rows parse (Suc 0) t rs) =
      (sint (last (t # map fst ss)) - sint t) * 1000000"
    using assms(3,4) ss s rs(3) by (intro total_sleep_running) (auto simp: list_all_iff)
  moreover have "last (t # map fst ss) = fst (last samples)"
    using ss s by (cases ss) (simp_all add: last_map)
  ultimately show ?thesis using rs ss s by simp
qed

theorem C6_total_sleep_witness:
  "map parse_raw [[''1000'', ''10'', ''10''], [''2000'', ''20'', ''20''], [''3000'', ''30'', ''30'']]
     = map Inr [(1000, 10, 10), (2000, 20, 20), (3000, 30, 30)]
   \<and> total_sleep (play_rows parse_raw 0 0
         [[''1000'', ''10'', ''10''], [''2000'', ''20'', ''20''], [''3000'', ''30'', ''30'']])
     = 2000000000"
proof -
  have h: "map parse_raw
      [[''1000'', ''10'', ''10''], [''2000'', ''20'', ''20''], [''3000'', ''30'', ''30'']]
    = map Inr [(1000, 10, 10), (2000, 20, 20), (3000, 30, 30)]"
    by code_simp
  show ?thesis
    using h C6_total_sleep_is_last_minus_first [OF h] by simp
qed

text \<open>
  Claim C10, as stated: for every two consecutive parsed rows with equal or decreasing
  offsets the computed delay is not positive and the player does not wait. The delay is
  computed in wrapping 64-bit nanoseconds: from offset 9223372036855 ms down to 0 the
  product with 1000000 wraps to a positive duration, and the player is asked to sleep for
  9223372036854551616 ns (about 292 years) between the two commands.
\<close>

theorem C10_far_apart_offsets_wrap:
  "events_of (player ParseFloat_dec denormalize 1920 1080
     [header,
      [''9223372036855'', ''0.25000000'', ''0.25000000''],
      [''0'', ''0.50000000'', ''0.50000000'']])
   = [Move 480 270, Sleep 9223372036854551616, Move 960 540]
   \<and> events_of (player_raw
     [[''timestamp'', ''x'', ''y''],
      [''9223372036855'', ''1'', ''1''],
      [''0'', ''2'', ''2'']])
   = [Move 1 1, Sleep 9223372036854551616, Move 2 2]
   \<and> sleep_ns 9223372036854551616 = 9223372036854551616"
  by code_simp

text \<open>
  Claim C10, amended: for every two consecutive parsed rows (the rows between them all
  skipped) whose offsets are equal or decrease by at most 9223372036854 ms, the loop goes
  on: it issues the first command, the diagnostics of the skipped rows, a sleep whose
  duration is not positive, which \<^verbatim>\<open>time.Sleep\<close> returns from at once, then the second
  command, in the order of the file, and continues with the rest of the log. This holds
  for every row parser, so for both players.
\<close>

theorem C10_nonpositive_delay_no_wait:
  assumes "parse r1 = Inr (t1, x1, y1)" and "map parse bad = map Inl ds"
    and "parse r2 = Inr (t2, x2, y2)"
    and "sint t2 \<le> sint t1" and "sint t1 - sint t2 \<le> 9223372036854"
  shows "play_rows parse i l (r1 # bad @ r2 # rest) =
           (if 0 < i then [Sleep (delay l t1)] else []) @
           Move x1 y1 # map Diag ds @
           [Sleep (delay t1 t2), Move x2 y2] @
           play_rows parse (Suc (Suc (i + length bad))) t2 rest
         \<and> sleep_ns (delay t1 t2) = 0"
proof -
  have "sint (delay t1 t2) = (sint t2 - sint t1) * 1000000"
    using assms(4,5) by (intro sint_delay) simp_all
  then have "sleep_ns (delay t1 t2) = 0"
    using assms(4) by (simp add: sleep_ns_def)
  moreover have "play_rows parse (Suc i) t1 (bad @ r2 # rest) =
      map Diag ds @ [Sleep (delay t1 t2), Move x2 y2] @
      play_rows parse (Suc (Suc (i + length bad))) t2 rest"
    using play_rows_skipped [OF assms(2), of "Suc i" t1 "r2 # rest"] assms(3) by simp
  ultimately show ?thesis
    using assms(1) by simp
qed

theorem C10_nonpositive_delay_witness:
  "play_rows parse_raw 0 0
     [[''2000'', ''10'', ''10''], [''x'', ''1'', ''1''], [''1500'', ''20'', ''20'']]
   = [Move 10 10, Diag (BadTimestamp ''x''), Sleep (delay 2000 1500), Move 20 20]
   \<and> sleep_ns (delay 2000 1500) = 0"
proof -
  have h1: "parse_raw [''2000'', ''10'', ''10''] = Inr (2000, 10, 10)"
    by code_simp
  have h2: "map parse_raw [[''x'', ''1'', ''1'']] = map Inl [BadTimestamp ''x'']"
    by code_simp
  have h3: "parse_raw [''1500'', ''20'', ''20''] = Inr (1500, 20, 20)"
    by code_simp
  have h4: "sint (1500 :: int64) \<le> sint (2000 :: int64)"
    by simp
  have h5: "sint (2000 :: int64) - sint (1500 :: int64) \<le> 9223372036854"
    by simp
  show ?thesis
    using C10_nonpositive_delay_no_wait [OF h1 h2 h3 h4 h5, of 0 0 "[]"] by simp
qed

section \<open>Properties of the recorder\<close>

lemma appended_append: "appended (a @ b) = appended a @ appended b"
  by (induction a rule: appended.induct) simp_all

lemma appended_on_tick: "appended (on_tick g tk) = [sample_row g tk]"
  by (simp add: on_tick_def)

lemma appended_ticks:
  "appended (concat (map (on_tick g) ticks)) = map (sample_row g) ticks"
  by (induction ticks) (simp_all add: appended_append appended_on_tick)

lemma appended_recorder:
  "appended (recorder g ticks) = header # map (sample_row g) ticks"
  by (simp add: recorder_def appended_ticks)

subsection \<open>The buffered writer loses no byte and writes none early\<close>

lemma bufio_put_bytes:
  "disk (bufio_put c w) @ pending (bufio_put c w) = disk w @ pending w @ [c]"
  by (simp add: bufio_put_def)

lemma bufio_put_bound:
  "length (pending w) \<le> 4096 \<Longrightarrow> length (pending (bufio_put c w)) \<le> 4096"
  by (simp add: bufio_put_def)

lemma fold_bufio_put_bytes:
  "disk (fold bufio_put s w) @ pending (fold bufio_put s w) = disk w @ pending w @ s"
  by (induction s arbitrary: w) (simp_all add: bufio_put_bytes)

lemma fold_bufio_put_bound:
  "length (pending w) \<le> 4096 \<Longrightarrow> length (pending (fold bufio_put s w)) \<le> 4096"
  by (induction s arbitrary: w) (simp_all add: bufio_put_bound)

lemma fold_csv_Write_bytes:
  "disk (fold csv_Write rows w) @ pending (fold csv_Write rows w) =
     disk w @ pending w @ concat (map csv_line rows)"
  by (induction rows arbitrary: w) (simp_all add: csv_Write_def fold_bufio_put_bytes)

lemma fold_csv_Write_bound:
  "length (pending w) \<le> 4096 \<Longrightarrow> length (pending (fold csv_Write rows w)) \<le> 4096"
  by (induction rows arbitrary: w) (simp_all add: csv_Write_def fold_bufio_put_bound)

lemma written_bytes:
  "disk (written evs) @ pending (written evs) = concat (map csv_line (appended evs))"
  using fold_csv_Write_bytes [of "appended evs" NewWriter]
  by (simp add: written_def NewWriter_def)

lemma written_bound: "length (pending (written evs)) \<le> 4096"
  by (simp add: written_def fold_csv_Write_bound NewWriter_def)

subsection \<open>A sample row is never the header\<close>

lemma last_digits_of: "0 \<le> n \<Longrightarrow> last (digits_of n) = digit_char (n mod 10)"
  by (subst digits_of.simps) simp

lemma digits_of_nonempty: "digits_of n \<noteq> []"
  by (subst digits_of.simps) simp

lemma digit_char_not_p: "digit_char (n mod 10) \<noteq> CHR ''p''"
proof
  assume "digit_char (n mod 10) = CHR ''p''"
  then have "(of_char (digit_char (n mod 10)) :: int) = of_char CHR ''p''"
    by simp
  then have "(48 + n mod 10) mod 256 = 112"
    by (simp add: digit_char_def)
  moreover have "0 \<le> n mod 10" "n mod 10 < 10"
    by simp_all
  ultimately show False
    by simp
qed

lemma Sprintf_d_not_header: "Sprintf_d t \<noteq> ''timestamp''"
proof
  assume a: "Sprintf_d t = ''timestamp''"
  have "last (Sprintf_d t) = digit_char (\<bar>sint t\<bar> mod 10)"
    by (simp add: Sprintf_d_def last_digits_of digits_of_nonempty)
  with a show False
    using digit_char_not_p [of "\<bar>sint t\<bar>"] by simp
qed

lemma sample_row_not_header: "sample_row g tk \<noteq> header"
  using Sprintf_d_not_header by (simp add: sample_row_def header_def)

lemma play_file_header:
  "length h = length h' \<Longrightarrow> play_file parse (h # body) = play_file parse (h' # body)"
  by (simp add: play_file_def ReadAll_def)

section \<open>The claims about the Recorder\<close>

text \<open>
  Claim C2, as stated: after every successful append the sample and all earlier ones are
  flushed to the log file, so a kill loses at most the sample in flight. The recorder
  never flushes in its loop: after the header and the first sample (1000 ms, pointer at
  the centre of a 1920 by 1080 screen) nothing at all is in the file, and a process killed
  there leaves an empty log.
\<close>

theorem C2_nothing_on_disk_after_append:
  "disk (written (recorder
      \<lparr>logicalWidth = 1920, logicalHeight = 1080, physicalWidth = 1920, physicalHeight = 1080\<rparr>
      [\<lparr>offset = 1000, mouseX = 960, mouseY = 540, captured = True, encoded = True,
        saved = True, estimate = EstNoText\<rparr>])) = []"
  by code_simp

text \<open>
  Claim C2, amended: appended rows are buffered. At every moment of a run the file
  followed by the buffer is the header and all rows appended so far, in order, and the
  buffer holds at most 4096 bytes: so what a kill leaves in the file is a prefix of the
  log that misses at most the last 4096 bytes, which can be every sample. When the
  recording ends and \<^verbatim>\<open>main\<close> returns, the deferred flush puts the whole log in the file.
\<close>

theorem C2_buffered_until_return:
  "disk (written (recorder g ticks)) @ pending (written (recorder g ticks)) =
     concat (map csv_line (header # map (sample_row g) ticks))
   \<and> length (pending (written (recorder g ticks))) \<le> 4096
   \<and> disk (returned (recorder g ticks)) =
     concat (map csv_line (header # map (sample_row g) ticks))
   \<and> pending (returned (recorder g ticks)) = []"
  using written_bytes [of "recorder g ticks"] written_bound [of "recorder g ticks"]
  by (simp add: returned_def Flush_def appended_recorder)

text \<open>
  Claim C3, as stated, speaks of every recording run. Two of the recorders it is drawn from
  do otherwise. The one that compares the estimate with the ground truth calls the
  estimator in the sampler's own goroutine and waits for it, so a call that runs into the
  deadline holds back the next tick. The one that records raw estimates writes a row only
  when the estimator answers: at the same tick a failing estimator leaves no row where an
  answering one leaves a row.
\<close>

theorem C3_variants_depend_on_estimator:
  "awaits_estimator (on_tick_compare
      \<lparr>logicalWidth = 1920, logicalHeight = 1080, physicalWidth = 1920, physicalHeight = 1080\<rparr>
      \<lparr>offset = 1000, mouseX = 960, mouseY = 540, captured = True, encoded = True,
        saved = True, estimate = EstError\<rparr>)
   \<and> appended (on_tick_estimate
      \<lparr>logicalWidth = 1920, logicalHeight = 1080, physicalWidth = 1920, physicalHeight = 1080\<rparr>
      \<lparr>offset = 1000, mouseX = 960, mouseY = 540, captured = True, encoded = True,
        saved = True, estimate = EstError\<rparr>) = []
   \<and> appended (on_tick_estimate
      \<lparr>logicalWidth = 1920, logicalHeight = 1080, physicalWidth = 1920, physicalHeight = 1080\<rparr>
      \<lparr>offset = 1000, mouseX = 960, mouseY = 540, captured = True, encoded = True,
        saved = True, estimate = EstCoords [''960'', ''540'']\<rparr>) = [[''1000'', ''960'', ''540'']]"
  by code_simp

text \<open>
  Claim C3, amended: in \<^verbatim>\<open>recorder/main.go\<close> the estimator runs in a goroutine that the
  sampler starts and never waits for, and its answer is dropped. Whatever the estimator
  answers at a tick, the sampler's trace of that tick is the same, it holds no wait for
  the estimator, and the whole run (so the count, the offsets and the values of the rows
  of the log) is the same. In the comparing recorder the row of a tick is the same
  whatever the estimator answers, but the sampler waits for the answer.
\<close>

theorem C3_estimator_off_the_sampler_path:
  "on_tick g (tk\<lparr>estimate := r\<rparr>) = on_tick g tk
   \<and> \<not> awaits_estimator (on_tick g tk)
   \<and> recorder g (map (\<lambda>tk. tk\<lparr>estimate := r\<rparr>) ticks) = recorder g ticks
   \<and> appended (on_tick_compare g (tk\<lparr>estimate := r\<rparr>)) = [sample_row g tk]"
proof -
  have a: "\<And>tk. on_tick g (tk\<lparr>estimate := r\<rparr>) = on_tick g tk"
    by (simp add: on_tick_def sample_row_def)
  have b: "\<not> awaits_estimator (on_tick g tk)"
    by (simp add: awaits_estimator_def on_tick_def)
  have c: "recorder g (map (\<lambda>tk. tk\<lparr>estimate := r\<rparr>) ticks) = recorder g ticks"
    by (simp add: recorder_def a comp_def)
  have d: "appended (on_tick_compare g (tk\<lparr>estimate := r\<rparr>)) = [sample_row g tk]"
    by (cases r) (simp_all add: on_tick_compare_def sample_row_def)
  show ?thesis using a b c d by simp
qed

text \<open>
  Claim C8, as stated, has the player read the header to learn the coordinate space. The
  player drops the first record without a look at it and always takes the body for
  unit-normalised coordinates: a log whose header names raw pixels, \<^verbatim>\<open>timestamp, x, y\<close>,
  with the position (960, 540), is played on a 1920 by 1080 screen as a move to
  (1843200, 583200).
\<close>

theorem C8_header_not_read:
  "player ParseFloat_dec denormalize 1920 1080
     [[''timestamp'', ''x'', ''y''], [''1000'', ''960'', ''540'']]
   = Played [Move 1843200 583200]"
  by code_simp

text \<open>
  Claim C8, amended: the recorder writes the header \<^verbatim>\<open>timestamp, norm_x, norm_y\<close> exactly
  once, as the first record of the log, before every sample row, and no sample row is
  equal to it. The players do not read it: two logs that differ only in a header of the
  same number of fields are played alike.
\<close>

theorem C8_header_written_once_and_ignored:
  assumes "length h = length h'"
  shows "appended (recorder g ticks) = header # map (sample_row g) ticks
    \<and> header \<notin> set (map (sample_row g) ticks)
    \<and> player pf dn w hh (h # body) = player pf dn w hh (h' # body)
    \<and> player_raw (h # body) = player_raw (h' # body)"
proof -
  have "header \<notin> set (map (sample_row g) ticks)"
    using sample_row_not_header [of g] by (metis (no_types) imageE list.set_map)
  then show ?thesis
    using assms
    by (simp add: appended_recorder player_def player_raw_def play_file_header [OF assms])
qed

theorem C8_header_witness:
  "length [''timestamp'', ''x'', ''y''] = length header
   \<and> player ParseFloat_dec denormalize 1920 1080
        [[''timestamp'', ''x'', ''y''], [''1000'', ''0.50000000'', ''0.50000000'']]
     = player ParseFloat_dec denormalize 1920 1080
        [header, [''1000'', ''0.50000000'', ''0.50000000'']]"
proof -
  have h: "length [''timestamp'', ''x'', ''y''] = length header"
    by (simp add: header_def)
  show ?thesis
    using h C8_header_written_once_and_ignored [OF h] by blast
qed

text \<open>
  Claim C9: at every tick the sample row is appended before the capture, the encoding and
  the estimator, so that a failure of these does not keep the row out of the log. Whatever
  the capture, the encoding, the debug file and the estimator do at a tick, the trace of
  the tick appends exactly the row of the tick, and what precedes the call of the capture
  is that append and its echo. So for every pattern of capture and encoding failures over
  a run, the rows appended are the header and one row for each tick, in order, and they
  are what the file holds when the recorder returns.
\<close>

theorem C9_row_appended_before_capture:
  "appended (on_tick g (tk\<lparr>captured := c, encoded := e, saved := s, estimate := r\<rparr>))
     = [sample_row g tk]
   \<and> takeWhile (\<lambda>ev. ev \<noteq> Call CaptureRect) (on_tick g tk)
     = [Append (sample_row g tk), Echo (sample_row g tk)]
   \<and> appended (recorder g (map (\<lambda>tk. tk\<lparr>captured := cs tk, encoded := es tk\<rparr>) ticks))
     = header # map (sample_row g) ticks
   \<and> disk (returned (recorder g (map (\<lambda>tk. tk\<lparr>captured := cs tk, encoded := es tk\<rparr>) ticks)))
     = concat (map csv_line (header # map (sample_row g) ticks))"
proof -
  have row: "sample_row g (tk\<lparr>captured := c, encoded := e\<rparr>) = sample_row g tk" for tk c e
    by (simp add: sample_row_def)
  have one: "appended (on_tick g (tk\<lparr>captured := c, encoded := e, saved := s, estimate := r\<rparr>))
      = [sample_row g tk]"
    by (simp add: appended_on_tick sample_row_def)
  have first: "takeWhile (\<lambda>ev. ev \<noteq> Call CaptureRect) (on_tick g tk)
      = [Append (sample_row g tk), Echo (sample_row g tk)]"
    by (simp add: on_tick_def)
  have run: "appended (recorder g (map (\<lambda>tk. tk\<lparr>captured := cs tk, encoded := es tk\<rparr>) ticks))
      = header # map (sample_row g) ticks"
    by (simp add: appended_recorder comp_def row)
  have "disk (returned (recorder g (map (\<lambda>tk. tk\<lparr>captured := cs tk, encoded := es tk\<rparr>) ticks)))
      = concat (map csv_line
          (appended (recorder g (map (\<lambda>tk. tk\<lparr>captured := cs tk, encoded := es tk\<rparr>) ticks))))"
    using written_bytes [of "recorder g (map (\<lambda>tk. tk\<lparr>captured := cs tk, encoded := es tk\<rparr>) ticks)"]
    by (simp add: returned_def Flush_def)
  with one first run show ?thesis
    by (simp only: simp_thms)
qed

section \<open>Properties of the float arithmetic\<close>

subsection \<open>Rounding to the nearest integer and to the nearest double\<close>

text \<open>Rounding to the nearest integer moves a number by at most one half.\<close>

lemma rne_err: "\<bar>of_int (rne q) - q\<bar> \<le> 1 / 2"
proof -
  have "of_int \<lfloor>q\<rfloor> \<le> q" "q < of_int \<lfloor>q\<rfloor> + 1"
    by linarith+
  then show ?thesis
    by (auto simp: rne_def Let_def)
qed

lemma rne_of_int: "rne (of_int m) = m"
  by (simp add: rne_def)

lemma rne_nonneg: "0 \<le> q \<Longrightarrow> 0 \<le> rne q"
proof -
  assume "0 \<le> q"
  then have "0 \<le> \<lfloor>q\<rfloor>" by simp
  then show ?thesis by (auto simp: rne_def Let_def)
qed

text \<open>
  \<open>ilog2 q\<close> is the binary exponent of a positive \<open>q\<close>:
  \<open>2^(ilog2 q) \<le> q < 2^(ilog2 q + 1)\<close>.
\<close>

lemma ilog2_lower:
  assumes "0 < q"
  shows "2 powi (ilog2 q) \<le> q"
proof (cases "1 \<le> q")
  case True
  then have n: "0 < \<lfloor>q\<rfloor>" by linarith
  from bitlen_bounds [OF n] have b: "2 ^ nat (bitlen \<lfloor>q\<rfloor> - 1) \<le> \<lfloor>q\<rfloor>"
    by simp
  have nn: "0 \<le> bitlen \<lfloor>q\<rfloor> - 1"
    using n by (simp add: bitlen_alt_def)
  have "(2::rat) powi (bitlen \<lfloor>q\<rfloor> - 1) = 2 ^ nat (bitlen \<lfloor>q\<rfloor> - 1)"
    using nn by (rule power_int_nonneg_exp)
  also have "\<dots> = of_int (2 ^ nat (bitlen \<lfloor>q\<rfloor> - 1))"
    by simp
  also have "\<dots> \<le> of_int \<lfloor>q\<rfloor>"
    using b by (simp only: of_int_le_iff)
  also have "\<dots> \<le> q"
    by linarith
  finally show ?thesis using True by (simp add: ilog2_def)
next
  case False
  define m where "m = \<lceil>1 / q\<rceil> - 1"
  have r: "1 < 1 / q" using assms False by simp
  then have m: "0 < m" unfolding m_def by linarith
  from bitlen_bounds [OF m] have b: "m < 2 ^ nat (bitlen m)"
    by simp
  then have "m + 1 \<le> 2 ^ nat (bitlen m)" by simp
  then have "(of_int (m + 1) :: rat) \<le> of_int (2 ^ nat (bitlen m))"
    by (simp only: of_int_le_iff)
  moreover have "1 / q \<le> of_int (m + 1)"
    unfolding m_def by simp
  ultimately have le: "1 / q \<le> 2 ^ nat (bitlen m)"
    by simp
  have "1 / 2 ^ nat (bitlen m) \<le> q"
    using le assms by (simp add: field_simps)
  moreover have "(2::rat) powi (- bitlen m) = 1 / 2 ^ nat (bitlen m)"
    using bitlen_nonneg [of m] by (simp add: power_int_minus_divide power_int_nonneg_exp)
  ultimately show ?thesis
    using False by (simp add: ilog2_def m_def)
qed

lemma ilog2_upper:
  assumes "0 < q"
  shows "q < 2 powi (ilog2 q + 1)"
proof (cases "1 \<le> q")
  case True
  then have n: "0 < \<lfloor>q\<rfloor>" by linarith
  from bitlen_bounds [OF n] have b: "\<lfloor>q\<rfloor> < 2 ^ nat (bitlen \<lfloor>q\<rfloor>)"
    by simp
  then have "\<lfloor>q\<rfloor> + 1 \<le> 2 ^ nat (bitlen \<lfloor>q\<rfloor>)" by simp
  then have "(of_int (\<lfloor>q\<rfloor> + 1) :: rat) \<le> of_int (2 ^ nat (bitlen \<lfloor>q\<rfloor>))"
    by (simp only: of_int_le_iff)
  moreover have "q < of_int (\<lfloor>q\<rfloor> + 1)" by simp linarith
  ultimately have "q < 2 ^ nat (bitlen \<lfloor>q\<rfloor>)" by simp
  moreover have "(2::rat) powi (bitlen \<lfloor>q\<rfloor>) = 2 ^ nat (bitlen \<lfloor>q\<rfloor>)"
    using bitlen_nonneg by (rule power_int_nonneg_exp)
  ultimately show ?thesis using True by (simp add: ilog2_def)
next
  case False
  define m where "m = \<lceil>1 / q\<rceil> - 1"
  have r: "1 < 1 / q" using assms False by simp
  then have m: "0 < m" unfolding m_def by linarith
  from bitlen_bounds [OF m] have b: "2 ^ nat (bitlen m - 1) \<le> m"
    by simp
  then have "(of_int (2 ^ nat (bitlen m - 1)) :: rat) \<le> of_int m"
    by (simp only: of_int_le_iff)
  moreover have "of_int m < 1 / q"
    unfolding m_def by simp linarith
  ultimately have lt: "2 ^ nat (bitlen m - 1) < 1 / q"
    by (simp only: of_int_power of_int_numeral)
  have "q < 1 / 2 ^ nat (bitlen m - 1)"
    using lt assms by (simp add: field_simps)
  moreover have nn: "0 \<le> bitlen m - 1"
    using m by (simp add: bitlen_alt_def)
  have "(2::rat) powi (- bitlen m + 1) = 1 / 2 ^ nat (bitlen m - 1)"
    using nn power_int_minus_divide [of "2::rat" "bitlen m - 1"]
    by (simp add: power_int_nonneg_exp)
  ultimately show ?thesis
    using False by (simp add: ilog2_def m_def)
qed

lemma powi_pos: "0 < (2::rat) powi e"
  by (simp add: power_int_def)

text \<open>
  Rounding to a double has a relative error of at most \<open>2^-53\<close>, keeps a number that
  is not negative so, and leaves the integers from 0 to \<open>2^53\<close> as they are.
\<close>

lemma round_f64_err: "\<bar>round_f64 q - q\<bar> \<le> \<bar>q\<bar> / 2 ^ 53"
proof (cases "q = 0")
  case True
  then show ?thesis by (simp add: round_f64_def)
next
  case False
  define e where "e = ilog2 \<bar>q\<bar>"
  define u where "u = (2::rat) powi (e - 52)"
  have u: "0 < u" unfolding u_def by (rule powi_pos)
  have r: "round_f64 q = of_int (rne (q / u)) * u"
    using False by (simp add: round_f64_def e_def u_def Let_def)
  have "round_f64 q - q = (of_int (rne (q / u)) - q / u) * u"
    using u by (simp add: r field_simps)
  then have "\<bar>round_f64 q - q\<bar> = \<bar>of_int (rne (q / u)) - q / u\<bar> * u"
    using u by (simp add: abs_mult)
  also have "\<dots> \<le> 1 / 2 * u"
    using rne_err [of "q / u"] u by (intro mult_right_mono) simp_all
  also have "1 / 2 * u = 2 powi e / 2 ^ 53"
  proof -
    have "(2::rat) powi (e - 52) = 2 powi e * 2 powi (- 52)"
      using power_int_add [of "2::rat" e "- 52"] by simp
    also have "(2::rat) powi (- 52) = 1 / 2 ^ 52"
      by (simp add: power_int_minus_divide)
    finally show ?thesis by (simp add: u_def)
  qed
  also have "\<dots> \<le> \<bar>q\<bar> / 2 ^ 53"
    using ilog2_lower [of "\<bar>q\<bar>"] False by (simp add: e_def divide_right_mono)
  finally show ?thesis .
qed

lemma round_f64_nonneg: "0 \<le> q \<Longrightarrow> 0 \<le> round_f64 q"
proof -
  assume q: "0 \<le> q"
  have "0 \<le> of_int (rne (q / u)) * u" if "0 < u" for u :: rat
    using that q rne_nonneg [of "q / u"] by simp
  then show ?thesis
    by (simp add: round_f64_def Let_def powi_pos)
qed

lemma bitlen_le_53:
  assumes "0 < n" and "n < 2 ^ 53"
  shows "bitlen n \<le> 53"
proof (rule ccontr)
  assume "\<not> bitlen n \<le> 53"
  then have "53 \<le> nat (bitlen n - 1)" by simp
  then have "(2::int) ^ 53 \<le> 2 ^ nat (bitlen n - 1)"
    by (intro power_increasing) simp_all
  with bitlen_bounds [OF assms(1)] assms(2) show False by simp
qed

lemma round_f64_of_nat_exact:
  assumes "0 \<le> n" and "n < 2 ^ 53"
  shows "round_f64 (of_int n) = of_int n"
proof (cases "n = 0")
  case True
  then show ?thesis by (simp add: round_f64_def)
next
  case False
  with assms have n: "0 < n" by simp
  define k where "k = nat (53 - bitlen n)"
  have bl: "1 \<le> bitlen n" "bitlen n \<le> 53"
    using n bitlen_le_53 [OF n assms(2)] by (simp_all add: bitlen_alt_def)
  have e: "ilog2 \<bar>of_int n\<bar> = bitlen n - 1"
    using n by (simp add: ilog2_def)
  define u where "u = (2::rat) powi (ilog2 \<bar>of_int n\<bar> - 52)"
  have u: "u = 1 / 2 ^ k"
  proof -
    have "ilog2 \<bar>of_int n\<bar> - 52 = - int k" using bl by (simp add: k_def e)
    then show ?thesis by (simp add: u_def power_int_minus_divide)
  qed
  have r: "round_f64 (of_int n) = of_int (rne (of_int n / u)) * u"
    using False by (simp add: round_f64_def Let_def u_def)
  have "of_int n / u = (of_int (n * 2 ^ k) :: rat)"
    by (simp add: u)
  then have "rne (of_int n / u) = n * 2 ^ k"
    by (simp only: rne_of_int)
  then show ?thesis
    by (simp add: r u)
qed

lemma f64_of_int_exact: "0 \<le> n \<Longrightarrow> n < 2 ^ 53 \<Longrightarrow> f64_of_int n = of_int n"
  by (simp add: f64_of_int_def round_f64_of_nat_exact)

subsection \<open>A coordinate through the log\<close>

text \<open>
  The value the player computes for a position \<open>x\<close> recorded on a dimension \<open>w\<close> and
  played on a dimension \<open>w'\<close> is the integer part of a double that lies within
  \<open>w' * (6 / 2^53 + 1 / (2 * 10^8))\<close> of \<open>x * w' / w\<close>: three roundings to a double and the
  rounding to 8 decimals.
\<close>

lemma replay_close:
  assumes "0 \<le> x" and "x < w" and "w < 2 ^ 53" and "0 < w'" and "w' < 2 ^ 53"
  shows "\<exists>P::rat. replay x w w' = \<lfloor>P\<rfloor> \<and> 0 \<le> P \<and>
           \<bar>P - of_int x * of_int w' / of_int w\<bar> \<le> of_int w' * (6 / 2 ^ 53 + 1 / (2 * 10 ^ 8))"
proof -
  define q :: rat where "q = of_int x / of_int w"
  define q1 where "q1 = round_f64 q"
  define n where "n = rne (q1 * 10 ^ 8)"
  define v :: rat where "v = of_int n / 10 ^ 8"
  define d where "d = round_f64 v"
  define W :: rat where "W = of_int w'"
  define P where "P = round_f64 (d * W)"
  have w: "0 < w" using assms(1,2) by simp
  have W: "0 < W" using assms(4) by (simp add: W_def)
  have q: "0 \<le> q" "q \<le> 1"
    using assms(1,2) w by (simp_all add: q_def)
  have norm: "normalize x w = q1"
    using assms w by (simp add: normalize_def f64_div_def f64_of_int_exact q1_def q_def)
  have rep: "replay x w w' = f64_to_int P"
    using assms(4,5)
    by (simp add: replay_def denormalize_def f64_mul_def f64_of_int_exact norm fixed8_def
        n_def v_def d_def W_def P_def)
  have e1: "\<bar>q1 - q\<bar> \<le> 1 / 2 ^ 53"
  proof -
    have "\<bar>q1 - q\<bar> \<le> \<bar>q\<bar> / 2 ^ 53"
      unfolding q1_def by (rule round_f64_err)
    also have "\<dots> \<le> 1 / 2 ^ 53"
      using q by (intro divide_right_mono) simp_all
    finally show ?thesis .
  qed
  have q1: "0 \<le> q1" unfolding q1_def using q(1) by (rule round_f64_nonneg)
  have n: "0 \<le> n" unfolding n_def using q1 by (intro rne_nonneg) simp
  have e2: "\<bar>v - q1\<bar> \<le> 1 / (2 * 10 ^ 8)"
  proof -
    have "v - q1 = (of_int n - q1 * 10 ^ 8) / 10 ^ 8"
      by (simp add: v_def field_simps)
    then have "\<bar>v - q1\<bar> = \<bar>(of_int n - q1 * 10 ^ 8) / 10 ^ 8\<bar>"
      by (simp only:)
    also have "\<dots> = \<bar>of_int n - q1 * 10 ^ 8\<bar> / 10 ^ 8"
      unfolding abs_divide by simp
    also have "\<dots> \<le> (1 / 2) / 10 ^ 8"
      using rne_err [of "q1 * 10 ^ 8"] unfolding n_def
      by (intro divide_right_mono) simp_all
    finally show ?thesis by simp
  qed
  have v: "0 \<le> v" "v \<le> 2"
  proof -
    show "0 \<le> v" using n by (simp add: v_def)
    have "v \<le> q + 1 / 2 ^ 53 + 1 / (2 * 10 ^ 8)"
      using e1 e2 by linarith
    then show "v \<le> 2" using q(2) by simp
  qed
  have e3: "\<bar>d - v\<bar> \<le> 2 / 2 ^ 53"
  proof -
    have "\<bar>d - v\<bar> \<le> \<bar>v\<bar> / 2 ^ 53"
      unfolding d_def by (rule round_f64_err)
    also have "\<dots> \<le> 2 / 2 ^ 53"
      using v by (intro divide_right_mono) simp_all
    finally show ?thesis .
  qed
  have d: "0 \<le> d" "d \<le> 3"
  proof -
    show "0 \<le> d" unfolding d_def using v(1) by (rule round_f64_nonneg)
    have "d \<le> v + 2 / 2 ^ 53" using e3 by linarith
    then show "d \<le> 3" using v(2) by simp
  qed
  have dW: "0 \<le> d * W" "d * W \<le> 3 * W"
    using d W by (simp_all add: mult_right_mono)
  have e4: "\<bar>P - d * W\<bar> \<le> W * (3 / 2 ^ 53)"
  proof -
    have "\<bar>P - d * W\<bar> \<le> \<bar>d * W\<bar> / 2 ^ 53"
      unfolding P_def by (rule round_f64_err)
    also have "\<dots> \<le> (3 * W) / 2 ^ 53"
      using dW by (intro divide_right_mono) simp_all
    finally show ?thesis by (simp add: field_simps)
  qed
  have e5: "\<bar>d * W - q * W\<bar> \<le> W * (3 / 2 ^ 53 + 1 / (2 * 10 ^ 8))"
  proof -
    have "\<bar>d - q\<bar> \<le> 3 / 2 ^ 53 + 1 / (2 * 10 ^ 8)"
      using e1 e2 e3 by linarith
    then have "\<bar>d - q\<bar> * W \<le> (3 / 2 ^ 53 + 1 / (2 * 10 ^ 8)) * W"
      using W by (intro mult_right_mono) simp_all
    moreover have "\<bar>d * W - q * W\<bar> = \<bar>d - q\<bar> * W"
      using W by (simp add: abs_mult flip: left_diff_distrib)
    ultimately show ?thesis by (simp add: mult.commute)
  qed
  have "\<bar>P - q * W\<bar> \<le> W * (3 / 2 ^ 53) + W * (3 / 2 ^ 53 + 1 / (2 * 10 ^ 8))"
    using e4 e5 by linarith
  also have "\<dots> = W * (6 / 2 ^ 53 + 1 / (2 * 10 ^ 8))"
    by (simp add: algebra_simps)
  finally have close: "\<bar>P - q * W\<bar> \<le> W * (6 / 2 ^ 53 + 1 / (2 * 10 ^ 8))" .
  have P: "0 \<le> P" unfolding P_def using dW(1) by (rule round_f64_nonneg)
  have "q * W = of_int x * of_int w' / of_int w"
    by (simp add: q_def W_def)
  with close P rep show ?thesis
    by (auto simp: f64_to_int_def W_def intro!: exI [of _ P])
qed

lemma floor_within:
  fixes P :: rat
  assumes "\<bar>P - of_int t\<bar> < 1"
  shows "t - 1 \<le> \<lfloor>P\<rfloor>" and "\<lfloor>P\<rfloor> \<le> t"
proof -
  have "of_int (t - 1) \<le> P" using assms by simp
  then show "t - 1 \<le> \<lfloor>P\<rfloor>" by (simp only: le_floor_iff)
  have "P < of_int (t + 1)" using assms by simp
  then have "\<lfloor>P\<rfloor> < t + 1" by (simp only: floor_less_iff)
  then show "\<lfloor>P\<rfloor> \<le> t" by simp
qed

lemma replay_same_screen:
  assumes "0 \<le> x" and "x < w" and "w \<le> 100000000"
  shows "x - 1 \<le> replay x w w \<and> replay x w w \<le> x"
proof -
  have w: "0 < w" "w < 2 ^ 53" using assms by simp_all
  obtain P :: rat where P: "replay x w w = \<lfloor>P\<rfloor>"
    "\<bar>P - of_int x * of_int w / of_int w\<bar> \<le> of_int w * (6 / 2 ^ 53 + 1 / (2 * 10 ^ 8))"
    using replay_close [OF assms(1,2) w(2) w] by blast
  have "(of_int w :: rat) \<le> of_int 100000000" using assms(3) by (simp only: of_int_le_iff)
  then have "(of_int w :: rat) \<le> 100000000" by simp
  then have "(of_int w :: rat) * (6 / 2 ^ 53 + 1 / (2 * 10 ^ 8)) \<le>
      100000000 * (6 / 2 ^ 53 + 1 / (2 * 10 ^ 8))"
    by (intro mult_right_mono) simp_all
  also have "\<dots> < 1" by simp
  finally have "(of_int w :: rat) * (6 / 2 ^ 53 + 1 / (2 * 10 ^ 8)) < 1" .
  moreover have "(of_int x :: rat) * of_int w / of_int w = of_int x"
    using w(1) by simp
  ultimately have "\<bar>P - of_int x\<bar> < 1" using P(2) by simp
  from floor_within [OF this] P(1) show ?thesis by simp
qed

lemma replay_1920_3840:
  assumes "0 \<le> x" and "x < 1920"
  shows "2 * x - 1 \<le> replay x 1920 3840 \<and> replay x 1920 3840 \<le> 2 * x"
proof -
  obtain P :: rat where P: "replay x 1920 3840 = \<lfloor>P\<rfloor>"
    "\<bar>P - of_int x * of_int 3840 / of_int 1920\<bar>
       \<le> of_int 3840 * (6 / 2 ^ 53 + 1 / (2 * 10 ^ 8))"
    using replay_close [OF assms, of 3840] by auto
  have "(of_int x :: rat) * of_int 3840 / of_int 1920 = of_int (2 * x)"
    by simp
  moreover have "(of_int 3840 :: rat) * (6 / 2 ^ 53 + 1 / (2 * 10 ^ 8)) < 1"
    by simp
  ultimately have "\<bar>P - of_int (2 * x)\<bar> < 1" using P(2) by (simp only:)
  from floor_within [OF this] P(1) show ?thesis by simp
qed

lemma replay_1080_2160:
  assumes "0 \<le> y" and "y < 1080"
  shows "2 * y - 1 \<le> replay y 1080 2160 \<and> replay y 1080 2160 \<le> 2 * y"
proof -
  obtain P :: rat where P: "replay y 1080 2160 = \<lfloor>P\<rfloor>"
    "\<bar>P - of_int y * of_int 2160 / of_int 1080\<bar>
       \<le> of_int 2160 * (6 / 2 ^ 53 + 1 / (2 * 10 ^ 8))"
    using replay_close [OF assms, of 2160] by auto
  have "(of_int y :: rat) * of_int 2160 / of_int 1080 = of_int (2 * y)"
    by simp
  moreover have "(of_int 2160 :: rat) * (6 / 2 ^ 53 + 1 / (2 * 10 ^ 8)) < 1"
    by simp
  ultimately have "\<bar>P - of_int (2 * y)\<bar> < 1" using P(2) by (simp only:)
  from floor_within [OF this] P(1) show ?thesis by simp
qed


section \<open>Properties of printing and parsing\<close>

subsection \<open>Decimal digits\<close>

lemma is_digit_digit_char: "0 \<le> k \<Longrightarrow> k < 10 \<Longrightarrow> is_digit (digit_char k)"
  by (simp add: is_digit_def digit_char_def)

lemma digit_val_digit_char: "0 \<le> k \<Longrightarrow> k < 10 \<Longrightarrow> digit_val (digit_char k) = k"
  by (simp add: digit_val_def digit_char_def)

lemma digits_val_append: "digits_val acc (xs @ ys) = digits_val (digits_val acc xs) ys"
  by (induction xs arbitrary: acc) simp_all

lemma digits_of_digits: "0 \<le> n \<Longrightarrow> list_all is_digit (digits_of n)"
proof (induction n rule: digits_of.induct)
  case (1 n)
  show ?case
  proof (cases "n < 10")
    case True
    with "1.prems" show ?thesis
      by (subst digits_of.simps) (simp add: is_digit_digit_char)
  next
    case False
    with "1.prems" "1.IH" have "list_all is_digit (digits_of (n div 10))" by simp
    with False show ?thesis
      by (subst digits_of.simps) (simp add: is_digit_digit_char)
  qed
qed

lemma digits_val_digits_of: "0 \<le> n \<Longrightarrow> digits_val 0 (digits_of n) = n"
proof (induction n rule: digits_of.induct)
  case (1 n)
  show ?case
  proof (cases "n < 10")
    case True
    with "1.prems" show ?thesis
      by (subst digits_of.simps) (simp add: digit_val_digit_char)
  next
    case False
    with "1.prems" "1.IH" have "digits_val 0 (digits_of (n div 10)) = n div 10" by simp
    with False show ?thesis
      by (subst digits_of.simps) (simp add: digits_val_append digit_val_digit_char)
  qed
qed

lemma fixed_digits_digits: "list_all is_digit (fixed_digits k m)"
  by (induction k arbitrary: m) (simp_all add: is_digit_digit_char)

lemma length_fixed_digits: "length (fixed_digits k m) = k"
  by (induction k arbitrary: m) simp_all

lemma digits_val_fixed_digits:
  "digits_val acc (fixed_digits k m) = acc * 10 ^ k + m mod 10 ^ k"
proof (induction k arbitrary: m)
  case 0
  then show ?case by simp
next
  case (Suc k)
  have "m mod (10 * 10 ^ k) = 10 * (m div 10 mod 10 ^ k) + m mod 10"
    by (rule zmod_zmult2_eq) simp
  with Suc [of "m div 10"] show ?case
    by (simp add: digits_val_append digit_val_digit_char algebra_simps)
qed

lemma not_digit_point: "\<not> is_digit CHR ''.''" "\<not> is_digit CHR ''-''" "\<not> is_digit CHR ''+''"
  by (simp_all add: is_digit_def)

lemma takeWhile_digits:
  "list_all is_digit ds \<Longrightarrow> \<not> is_digit c \<Longrightarrow> takeWhile is_digit (ds @ c # r) = ds"
  by (induction ds) simp_all

lemma dropWhile_digits:
  "list_all is_digit ds \<Longrightarrow> \<not> is_digit c \<Longrightarrow> dropWhile is_digit (ds @ c # r) = c # r"
  by (induction ds) simp_all

text \<open>What \<open>ParseFloat_dec\<close> reads in digits, a point and digits.\<close>

lemma ParseFloat_dec_unsigned:
  assumes "list_all is_digit ip" and "ip \<noteq> []" and "list_all is_digit fp"
  shows "ParseFloat_dec (ip @ CHR ''.'' # fp) =
           Some (round_f64 (of_int (digits_val 0 (ip @ fp)) / 10 ^ length fp))"
proof -
  obtain c cs where ip: "ip = c # cs" using assms(2) by (cases ip) auto
  with assms(1) have c: "is_digit c" by simp
  then have sign: "c \<noteq> CHR ''-''" "c \<noteq> CHR ''+''"
    using not_digit_point by auto
  have tk: "take 1 (ip @ CHR ''.'' # fp) = [c]" by (simp add: ip)
  have tw: "takeWhile is_digit (ip @ CHR ''.'' # fp) = ip"
    using assms(1) not_digit_point(1) by (rule takeWhile_digits)
  have dw: "dropWhile is_digit (ip @ CHR ''.'' # fp) = CHR ''.'' # fp"
    using assms(1) not_digit_point(1) by (rule dropWhile_digits)
  show ?thesis
    unfolding ParseFloat_dec_def tk using sign assms(2,3)
    by (simp add: tw dw Let_def)
qed

lemma ParseFloat_dec_negative:
  assumes "list_all is_digit ip" and "ip \<noteq> []" and "list_all is_digit fp"
  shows "ParseFloat_dec (CHR ''-'' # ip @ CHR ''.'' # fp) =
           Some (round_f64 (- (of_int (digits_val 0 (ip @ fp)) / 10 ^ length fp)))"
proof -
  have tw: "takeWhile is_digit (ip @ CHR ''.'' # fp) = ip"
    using assms(1) not_digit_point(1) by (rule takeWhile_digits)
  have dw: "dropWhile is_digit (ip @ CHR ''.'' # fp) = CHR ''.'' # fp"
    using assms(1) not_digit_point(1) by (rule dropWhile_digits)
  show ?thesis
    unfolding ParseFloat_dec_def using assms(2,3)
    by (simp add: tw dw Let_def)
qed

subsection \<open>What the recorder prints, the player reads\<close>

lemma rne_nonpos: "q \<le> 0 \<Longrightarrow> rne q \<le> 0"
proof -
  assume q: "q \<le> 0"
  have f: "of_int \<lfloor>q\<rfloor> \<le> q" by simp
  show ?thesis
  proof (cases "q - of_int \<lfloor>q\<rfloor> < 1 / 2")
    case True
    then have "rne q = \<lfloor>q\<rfloor>" by (simp add: rne_def Let_def)
    then show ?thesis using q by simp
  next
    case False
    then have "of_int \<lfloor>q\<rfloor> < q" by simp
    then have "(of_int \<lfloor>q\<rfloor> :: rat) < 0" using q by linarith
    then have "\<lfloor>q\<rfloor> < 0" by (simp only: of_int_less_0_iff)
    moreover have "rne q \<le> \<lfloor>q\<rfloor> + 1" by (simp add: rne_def Let_def)
    ultimately show ?thesis by linarith
  qed
qed

lemma ParseFloat_dec_Sprintf_8f:
  "ParseFloat_dec (Sprintf_8f v) = Some (round_f64 (of_int (fixed8 v) / 10 ^ 8))"
proof -
  define a where "a = \<bar>fixed8 v\<bar>"
  have a: "0 \<le> a" by (simp add: a_def)
  define ip where "ip = digits_of (a div 10 ^ 8)"
  define fp where "fp = frac8 (a mod 10 ^ 8)"
  have ip: "list_all is_digit ip" "ip \<noteq> []"
    using a by (simp_all add: ip_def digits_of_digits digits_of_nonempty pos_imp_zdiv_nonneg_iff)
  have fp: "list_all is_digit fp" "length fp = 8"
    by (simp_all add: fp_def frac8_def fixed_digits_digits length_fixed_digits)
  have "digits_val 0 (ip @ fp) = a div 10 ^ 8 * 10 ^ 8 + a mod 10 ^ 8"
    using a
    by (simp add: digits_val_append ip_def fp_def frac8_def digits_val_digits_of
        digits_val_fixed_digits pos_imp_zdiv_nonneg_iff)
  then have val: "digits_val 0 (ip @ fp) = a" by simp
  show ?thesis
  proof (cases "v < 0")
    case True
    then have "fixed8 v \<le> 0"
      unfolding fixed8_def by (intro rne_nonpos) (simp add: mult_le_0_iff)
    then have neg: "- (of_int a :: rat) = of_int (fixed8 v)" by (simp add: a_def)
    have "Sprintf_8f v = CHR ''-'' # ip @ CHR ''.'' # fp"
      using True by (simp add: Sprintf_8f_def Let_def a_def ip_def fp_def)
    then show ?thesis
      using ParseFloat_dec_negative [OF ip fp(1)] val fp(2) neg
      by (simp add: minus_divide_left)
  next
    case False
    then have "0 \<le> fixed8 v"
      unfolding fixed8_def by (intro rne_nonneg) simp
    then have pos: "(of_int a :: rat) = of_int (fixed8 v)" by (simp add: a_def)
    have "Sprintf_8f v = ip @ CHR ''.'' # fp"
      using False by (simp add: Sprintf_8f_def Let_def a_def ip_def fp_def)
    then show ?thesis
      using ParseFloat_dec_unsigned [OF ip fp(1)] val fp(2) pos by simp
  qed
qed

lemma ParseInt_digits:
  assumes "0 \<le> n" and "n < 2 ^ 63"
  shows "ParseInt (digits_of n) = Some (word_of_int n)"
proof -
  obtain c cs where s: "digits_of n = c # cs"
    using digits_of_nonempty [of n] by (cases "digits_of n") auto
  have all: "list_all is_digit (c # cs)"
    using digits_of_digits [OF assms(1)] s by simp
  then have "is_digit c" by simp
  then have sign: "c \<noteq> CHR ''-''" "c \<noteq> CHR ''+''"
    using not_digit_point by auto
  have "ParseUint (c # cs) = Some n"
    using all digits_val_digits_of [OF assms(1)] s by (simp add: ParseUint_def)
  then show ?thesis
    using sign assms(2) by (simp add: ParseInt_def s Let_def)
qed

lemma ParseInt_minus_digits:
  assumes "0 < n" and "n \<le> 2 ^ 63"
  shows "ParseInt (CHR ''-'' # digits_of n) = Some (word_of_int (- n))"
proof -
  have n: "0 \<le> n" using assms(1) by simp
  have "ParseUint (digits_of n) = Some n"
    using digits_of_digits [OF n] digits_val_digits_of [OF n] digits_of_nonempty [of n]
    by (simp add: ParseUint_def)
  then show ?thesis
    using assms(2) by (simp add: ParseInt_def Let_def)
qed

lemma ParseInt_Sprintf_d: "ParseInt (Sprintf_d t) = Some t"
proof (cases "sint t < 0")
  case True
  have "- sint t \<le> 2 ^ 63"
    using sint_ge [of t] by simp
  with True have "ParseInt (CHR ''-'' # digits_of (- sint t)) = Some (word_of_int (- (- sint t)))"
    by (intro ParseInt_minus_digits) simp_all
  with True show ?thesis by (simp add: Sprintf_d_def)
next
  case False
  have "sint t < 2 ^ 63"
    using sint_lt [of t] by simp
  with False have "ParseInt (digits_of (sint t)) = Some (word_of_int (sint t))"
    by (intro ParseInt_digits) simp_all
  with False show ?thesis by (simp add: Sprintf_d_def)
qed

lemma norm_field_positive:
  "0 < logical \<Longrightarrow> norm_field mouse logical = Sprintf_8f (normalize mouse logical)"
  by (simp add: norm_field_def)

lemma parse_norm_sample_row:
  assumes "0 < logicalWidth g" and "0 < logicalHeight g"
  shows "parse_norm ParseFloat_dec denormalize w h (sample_row g tk) =
           Inr (offset tk, replay (mouseX tk) (logicalWidth g) w,
                replay (mouseY tk) (logicalHeight g) h)"
  using assms
  by (simp add: parse_norm_def sample_row_def ParseInt_Sprintf_d norm_field_positive
      ParseFloat_dec_Sprintf_8f replay_def)

lemma parsed_recorded:
  assumes "0 < logicalWidth g" and "0 < logicalHeight g"
  shows "parsed (parse_norm ParseFloat_dec denormalize w h) (map (sample_row g) ticks) =
           map (\<lambda>tk. (offset tk, replay (mouseX tk) (logicalWidth g) w,
                        replay (mouseY tk) (logicalHeight g) h)) ticks"
  by (induction ticks) (simp_all add: parse_norm_sample_row [OF assms])

lemma ReadAll_recorded:
  "ReadAll (header # map (sample_row g) ticks) = Inr (header # map (sample_row g) ticks)"
  by (simp add: ReadAll_def header_def sample_row_def list_all_iff)

lemma moves_of_recorded_log:
  assumes "0 < logicalWidth g" and "0 < logicalHeight g"
  shows "moves (events_of (player ParseFloat_dec denormalize w h (appended (recorder g ticks)))) =
           map (\<lambda>tk. (replay (mouseX tk) (logicalWidth g) w,
                        replay (mouseY tk) (logicalHeight g) h)) ticks"
  by (simp add: player_def play_file_def appended_recorder ReadAll_recorded moves_play_rows
      parsed_recorded [OF assms] comp_def)

lemma diags_of_recorded_log:
  assumes "0 < logicalWidth g" and "0 < logicalHeight g"
  shows "diags (events_of (player ParseFloat_dec denormalize w h (appended (recorder g ticks)))) = []"
proof -
  have "skipped (parse_norm ParseFloat_dec denormalize w h) (map (sample_row g) ticks) = []"
    by (induction ticks) (simp_all add: parse_norm_sample_row [OF assms])
  then show ?thesis
    by (simp add: player_def play_file_def appended_recorder ReadAll_recorded diags_play_rows)
qed

section \<open>Positions outside the screen\<close>

text \<open>
  The pointer may be read outside the rectangle of the screen: the recorder divides and
  prints whatever \<^verbatim>\<open>robotgo.GetMousePos\<close> returned, and the player converts whatever it
  reads. Rounding to a double keeps the sign, and an integer below \<open>2^53\<close> in absolute
  value is a double.
\<close>

lemma round_f64_nonpos: "q \<le> 0 \<Longrightarrow> round_f64 q \<le> 0"
proof -
  assume q: "q \<le> 0"
  have "of_int (rne (q / u)) * u \<le> 0" if "0 < u" for u :: rat
  proof -
    have "q / u \<le> 0" using that q by (simp add: divide_nonpos_pos)
    then have "rne (q / u) \<le> 0" by (rule rne_nonpos)
    then have "(of_int (rne (q / u)) :: rat) \<le> 0" by simp
    then show ?thesis using that by (simp add: mult_le_0_iff)
  qed
  then show ?thesis
    by (simp add: round_f64_def Let_def powi_pos)
qed

lemma round_f64_of_int_exact:
  assumes "\<bar>n\<bar> < 2 ^ 53"
  shows "round_f64 (of_int n) = of_int n"
proof (cases "n = 0")
  case True
  then show ?thesis by (simp add: round_f64_def)
next
  case False
  define a where "a = \<bar>n\<bar>"
  have a: "0 < a" "a < 2 ^ 53" using False assms by (simp_all add: a_def)
  define k where "k = nat (53 - bitlen a)"
  have bl: "1 \<le> bitlen a" "bitlen a \<le> 53"
    using a bitlen_le_53 [OF a] by (simp_all add: bitlen_alt_def)
  have abs: "\<bar>of_int n :: rat\<bar> = of_int a" by (simp add: a_def)
  have e: "ilog2 \<bar>of_int n\<bar> = bitlen a - 1"
    unfolding abs using a by (simp add: ilog2_def)
  define u where "u = (2::rat) powi (ilog2 \<bar>of_int n\<bar> - 52)"
  have u: "u = 1 / 2 ^ k"
  proof -
    have "ilog2 \<bar>of_int n\<bar> - 52 = - int k" using bl by (simp add: k_def e)
    then show ?thesis by (simp add: u_def power_int_minus_divide)
  qed
  have r: "round_f64 (of_int n) = of_int (rne (of_int n / u)) * u"
    using False by (simp add: round_f64_def Let_def u_def)
  have "of_int n / u = (of_int (n * 2 ^ k) :: rat)"
    by (simp add: u)
  then have "rne (of_int n / u) = n * 2 ^ k"
    by (simp only: rne_of_int)
  then show ?thesis
    by (simp add: r u)
qed

lemma f64_of_int_exact_abs: "\<bar>n\<bar> < 2 ^ 53 \<Longrightarrow> f64_of_int n = of_int n"
  by (simp add: f64_of_int_def round_f64_of_int_exact)

text \<open>
  The same value for a position anywhere: with \<open>|x / w| \<le> K\<close> it is the integer part of a
  double within \<open>w' * (1 / (2 * 10^8) + (3 * K + 3) / 2^53)\<close> of \<open>x * w' / w\<close>, on the
  side of zero where \<open>x\<close> is.
\<close>

lemma replay_close_anywhere:
  assumes "\<bar>x\<bar> < 2 ^ 53" and "0 < w" and "w < 2 ^ 53" and "0 < w'" and "w' < 2 ^ 53"
    and "\<bar>of_int x / of_int w :: rat\<bar> \<le> K" and "K \<le> 2 ^ 40"
  shows "\<exists>P::rat. replay x w w' = f64_to_int P \<and> (0 \<le> x \<longrightarrow> 0 \<le> P) \<and> (x \<le> 0 \<longrightarrow> P \<le> 0) \<and>
           \<bar>P - of_int x * of_int w' / of_int w\<bar>
             \<le> of_int w' * (1 / (2 * 10 ^ 8) + (3 * K + 3) / 2 ^ 53)"
proof -
  define q :: rat where "q = of_int x / of_int w"
  define q1 where "q1 = round_f64 q"
  define n where "n = rne (q1 * 10 ^ 8)"
  define v :: rat where "v = of_int n / 10 ^ 8"
  define d where "d = round_f64 v"
  define W :: rat where "W = of_int w'"
  define P where "P = round_f64 (d * W)"
  have W: "0 < W" using assms(4) by (simp add: W_def)
  have K: "0 \<le> K" using assms(6) by linarith
  have q: "\<bar>q\<bar> \<le> K" using assms(6) by (simp add: q_def)
  have norm: "normalize x w = q1"
    using assms(1,2,3)
    by (simp add: normalize_def f64_div_def f64_of_int_exact_abs q1_def q_def)
  have rep: "replay x w w' = f64_to_int P"
    using assms(4,5)
    by (simp add: replay_def denormalize_def f64_mul_def f64_of_int_exact_abs norm fixed8_def
        n_def v_def d_def W_def P_def)
  have KU: "K / 2 ^ 53 \<le> 1 / 2 ^ 13"
  proof -
    have "K / 2 ^ 53 \<le> 2 ^ 40 / 2 ^ 53"
      using assms(7) by (intro divide_right_mono) simp_all
    then show ?thesis by simp
  qed
  have e1: "\<bar>q1 - q\<bar> \<le> K / 2 ^ 53"
  proof -
    have "\<bar>q1 - q\<bar> \<le> \<bar>q\<bar> / 2 ^ 53"
      unfolding q1_def by (rule round_f64_err)
    also have "\<dots> \<le> K / 2 ^ 53"
      using q by (intro divide_right_mono) simp_all
    finally show ?thesis .
  qed
  have e2: "\<bar>v - q1\<bar> \<le> 1 / (2 * 10 ^ 8)"
  proof -
    have "v - q1 = (of_int n - q1 * 10 ^ 8) / 10 ^ 8"
      by (simp add: v_def field_simps)
    then have "\<bar>v - q1\<bar> = \<bar>(of_int n - q1 * 10 ^ 8) / 10 ^ 8\<bar>"
      by (simp only:)
    also have "\<dots> = \<bar>of_int n - q1 * 10 ^ 8\<bar> / 10 ^ 8"
      unfolding abs_divide by simp
    also have "\<dots> \<le> (1 / 2) / 10 ^ 8"
      using rne_err [of "q1 * 10 ^ 8"] unfolding n_def
      by (intro divide_right_mono) simp_all
    finally show ?thesis by simp
  qed
  have v: "\<bar>v\<bar> \<le> K + 1"
  proof -
    have "\<bar>v\<bar> \<le> \<bar>q\<bar> + \<bar>q1 - q\<bar> + \<bar>v - q1\<bar>" by linarith
    moreover have "(1::rat) / 2 ^ 13 + 1 / (2 * 10 ^ 8) \<le> 1" by simp
    ultimately show ?thesis using q e1 e2 KU by linarith
  qed
  have e3: "\<bar>d - v\<bar> \<le> (K + 1) / 2 ^ 53"
  proof -
    have "\<bar>d - v\<bar> \<le> \<bar>v\<bar> / 2 ^ 53"
      unfolding d_def by (rule round_f64_err)
    also have "\<dots> \<le> (K + 1) / 2 ^ 53"
      using v by (intro divide_right_mono) simp_all
    finally show ?thesis .
  qed
  have d: "\<bar>d\<bar> \<le> K + 2"
  proof -
    have "(K + 1) / 2 ^ 53 \<le> 1"
      using KU by (simp add: add_divide_distrib)
    moreover have "\<bar>d\<bar> \<le> \<bar>v\<bar> + \<bar>d - v\<bar>" by linarith
    ultimately show ?thesis using v e3 by linarith
  qed
  have e4: "\<bar>P - d * W\<bar> \<le> W * ((K + 2) / 2 ^ 53)"
  proof -
    have "\<bar>P - d * W\<bar> \<le> \<bar>d * W\<bar> / 2 ^ 53"
      unfolding P_def by (rule round_f64_err)
    also have "\<bar>d * W\<bar> = \<bar>d\<bar> * W"
      using W by (simp add: abs_mult)
    also have "\<bar>d\<bar> * W / 2 ^ 53 \<le> (K + 2) * W / 2 ^ 53"
      using d W by (intro divide_right_mono mult_right_mono) simp_all
    finally show ?thesis by (simp add: field_simps)
  qed
  have e5: "\<bar>d * W - q * W\<bar> \<le> W * (1 / (2 * 10 ^ 8) + (2 * K + 1) / 2 ^ 53)"
  proof -
    have "\<bar>d - q\<bar> \<le> K / 2 ^ 53 + 1 / (2 * 10 ^ 8) + (K + 1) / 2 ^ 53"
      using e1 e2 e3 by linarith
    also have "\<dots> = 1 / (2 * 10 ^ 8) + (2 * K + 1) / 2 ^ 53"
      by (simp add: add_divide_distrib)
    finally have "\<bar>d - q\<bar> * W \<le> (1 / (2 * 10 ^ 8) + (2 * K + 1) / 2 ^ 53) * W"
      using W by (intro mult_right_mono) simp_all
    moreover have "\<bar>d * W - q * W\<bar> = \<bar>d - q\<bar> * W"
      using W by (simp add: abs_mult flip: left_diff_distrib)
    ultimately show ?thesis by (simp add: mult.commute)
  qed
  have "\<bar>P - q * W\<bar> \<le> W * ((K + 2) / 2 ^ 53) + W * (1 / (2 * 10 ^ 8) + (2 * K + 1) / 2 ^ 53)"
    using e4 e5 by linarith
  also have "\<dots> = W * (1 / (2 * 10 ^ 8) + (3 * K + 3) / 2 ^ 53)"
    by (simp add: algebra_simps add_divide_distrib)
  finally have close: "\<bar>P - q * W\<bar> \<le> W * (1 / (2 * 10 ^ 8) + (3 * K + 3) / 2 ^ 53)" .
  have pos: "0 \<le> P" if "0 \<le> x"
  proof -
    have "0 \<le> q" using that assms(2) by (simp add: q_def)
    then have "0 \<le> q1" unfolding q1_def by (rule round_f64_nonneg)
    then have "0 \<le> n" unfolding n_def by (intro rne_nonneg) simp
    then have "0 \<le> v" by (simp add: v_def)
    then have "0 \<le> d" unfolding d_def by (rule round_f64_nonneg)
    then have "0 \<le> d * W" using W by simp
    then show ?thesis unfolding P_def by (rule round_f64_nonneg)
  qed
  have neg: "P \<le> 0" if "x \<le> 0"
  proof -
    have "q \<le> 0" using that assms(2) by (simp add: q_def divide_nonpos_pos)
    then have "q1 \<le> 0" unfolding q1_def by (rule round_f64_nonpos)
    then have "n \<le> 0" unfolding n_def by (intro rne_nonpos) (simp add: mult_le_0_iff)
    then have "v \<le> 0" by (simp add: v_def divide_nonpos_pos)
    then have "d \<le> 0" unfolding d_def by (rule round_f64_nonpos)
    then have "d * W \<le> 0" using W by (simp add: mult_le_0_iff)
    then show ?thesis unfolding P_def by (rule round_f64_nonpos)
  qed
  have "q * W = of_int x * of_int w' / of_int w"
    by (simp add: q_def W_def)
  with close pos neg rep show ?thesis
    by (auto simp: W_def intro!: exI [of _ P])
qed

text \<open>
  The conversion to \<^verbatim>\<open>int\<close> drops the fraction, towards zero: a double within one unit
  of the integer \<open>t\<close> becomes \<open>t\<close> or the integer next to it on the side of zero.
\<close>

lemma trunc_within:
  fixes P :: rat
  assumes "\<bar>P - of_int t\<bar> < 1"
  shows "0 \<le> P \<Longrightarrow> t - 1 \<le> f64_to_int P \<and> f64_to_int P \<le> t"
    and "P < 0 \<Longrightarrow> t \<le> f64_to_int P \<and> f64_to_int P \<le> t + 1"
proof -
  assume "0 \<le> P"
  with floor_within [OF assms] show "t - 1 \<le> f64_to_int P \<and> f64_to_int P \<le> t"
    by (simp add: f64_to_int_def)
next
  assume P: "P < 0"
  have "of_int (t - 1) < P" using assms by simp
  then have "t - 1 < \<lceil>P\<rceil>" by (simp only: less_ceiling_iff)
  moreover have "P \<le> of_int (t + 1)" using assms by simp
  then have "\<lceil>P\<rceil> \<le> t + 1" by (simp only: ceiling_le_iff)
  ultimately show "t \<le> f64_to_int P \<and> f64_to_int P \<le> t + 1"
    using P by (simp add: f64_to_int_def)
qed

lemma replay_near:
  assumes "\<bar>x\<bar> < 2 ^ 53" and "0 < w" and "w < 2 ^ 53" and "0 < w'" and "w' < 2 ^ 53"
    and "\<bar>of_int x / of_int w :: rat\<bar> \<le> K" and "K \<le> 2 ^ 40"
    and "of_int x * of_int w' / of_int w = (of_int t :: rat)"
    and "of_int w' * (1 / (2 * 10 ^ 8) + (3 * K + 3) / 2 ^ 53) < (1 :: rat)"
    and "x < 0 \<Longrightarrow> t \<le> - 1"
  shows "if 0 \<le> x then t - 1 \<le> replay x w w' \<and> replay x w w' \<le> t
         else t \<le> replay x w w' \<and> replay x w w' \<le> t + 1"
proof -
  obtain P :: rat where P: "replay x w w' = f64_to_int P" "0 \<le> x \<longrightarrow> 0 \<le> P"
    "x \<le> 0 \<longrightarrow> P \<le> 0"
    "\<bar>P - of_int x * of_int w' / of_int w\<bar>
       \<le> of_int w' * (1 / (2 * 10 ^ 8) + (3 * K + 3) / 2 ^ 53)"
    using replay_close_anywhere [OF assms(1-7)] by blast
  have near: "\<bar>P - of_int t\<bar> < 1"
    using P(4) assms(8,9) by (simp only:)
  show ?thesis
  proof (cases "0 \<le> x")
    case True
    with P(2) have "0 \<le> P" by simp
    from trunc_within(1) [OF near this] True P(1) show ?thesis by simp
  next
    case False
    then have "x < 0" by simp
    from assms(10) [OF this] have "(of_int t :: rat) \<le> - 1"
      by (metis of_int_le_iff of_int_minus of_int_1)
    with near have "P < 0" by linarith
    from trunc_within(2) [OF near this] False P(1) show ?thesis by simp
  qed
qed

lemma ratio_bound:
  fixes x w :: int
  assumes "\<bar>x\<bar> \<le> b" and "0 < w" and "of_int b \<le> K * (of_int w :: rat)"
  shows "\<bar>of_int x / of_int w :: rat\<bar> \<le> K"
proof -
  have "\<bar>of_int x :: rat\<bar> \<le> of_int b"
    using assms(1) by (metis of_int_abs of_int_le_iff)
  then have "\<bar>of_int x :: rat\<bar> \<le> K * of_int w" using assms(3) by linarith
  then show ?thesis using assms(2) by (simp add: pos_divide_le_eq)
qed

lemma replay_1920_3840_anywhere:
  assumes "\<bar>x\<bar> \<le> 2147483648"
  shows "if 0 \<le> x then 2 * x - 1 \<le> replay x 1920 3840 \<and> replay x 1920 3840 \<le> 2 * x
         else 2 * x \<le> replay x 1920 3840 \<and> replay x 1920 3840 \<le> 2 * x + 1"
proof (rule replay_near [where K = 2000000])
  show "\<bar>x\<bar> < 2 ^ 53" using assms by simp
  show "\<bar>of_int x / of_int 1920 :: rat\<bar> \<le> 2000000"
    using assms by (rule ratio_bound) simp_all
  show "of_int x * of_int 3840 / of_int 1920 = (of_int (2 * x) :: rat)" by simp
  show "of_int 3840 * (1 / (2 * 10 ^ 8) + (3 * 2000000 + 3) / 2 ^ 53) < (1 :: rat)" by simp
  show "2 * x \<le> - 1" if "x < 0" using that by simp
qed simp_all

lemma replay_1080_2160_anywhere:
  assumes "\<bar>y\<bar> \<le> 2147483648"
  shows "if 0 \<le> y then 2 * y - 1 \<le> replay y 1080 2160 \<and> replay y 1080 2160 \<le> 2 * y
         else 2 * y \<le> replay y 1080 2160 \<and> replay y 1080 2160 \<le> 2 * y + 1"
proof (rule replay_near [where K = 2000000])
  show "\<bar>y\<bar> < 2 ^ 53" using assms by simp
  show "\<bar>of_int y / of_int 1080 :: rat\<bar> \<le> 2000000"
    using assms by (rule ratio_bound) simp_all
  show "of_int y * of_int 2160 / of_int 1080 = (of_int (2 * y) :: rat)" by simp
  show "of_int 2160 * (1 / (2 * 10 ^ 8) + (3 * 2000000 + 3) / 2 ^ 53) < (1 :: rat)" by simp
  show "2 * y \<le> - 1" if "y < 0" using that by simp
qed simp_all

section \<open>The claims about the conversion of coordinates\<close>

text \<open>
  Claim C4, as stated, holds on every geometry with positive dimensions. The log keeps 8
  decimals of the normalised coordinate, so on a screen 1000000000 units wide and high the
  position (3, 3) is written as \<^verbatim>\<open>0.00000000,0.00000000\<close> and is played, on the same
  screen, at (0, 0): three units away in each axis.
\<close>

theorem C4_wide_screen_loses_position:
  "events_of (player ParseFloat_dec denormalize 1000000000 1000000000
     (appended (recorder
        \<lparr>logicalWidth = 1000000000, logicalHeight = 1000000000,
          physicalWidth = 1000000000, physicalHeight = 1000000000\<rparr>
        [\<lparr>offset = 1000, mouseX = 3, mouseY = 3, captured = True, encoded = True,
          saved = True, estimate = EstNoText\<rparr>])))
   = [Move 0 0]"
  by code_simp

text \<open>
  Claim C4, amended: on a geometry whose logical dimensions are positive and at most
  100000000, every log of positions inside the screen that the recorder writes is played
  on the same geometry by the player, one command for each sample, at the positions
  \<open>replay\<close> gives, and each of them is, in each axis, the recorded coordinate or the one
  just below it.
\<close>

theorem C4_round_trip_within_one:
  assumes "0 < logicalWidth g" and "logicalWidth g \<le> 100000000"
    and "0 < logicalHeight g" and "logicalHeight g \<le> 100000000"
    and "list_all (\<lambda>tk. 0 \<le> mouseX tk \<and> mouseX tk < logicalWidth g \<and>
                         0 \<le> mouseY tk \<and> mouseY tk < logicalHeight g) ticks"
  shows "moves (events_of (player ParseFloat_dec denormalize (logicalWidth g) (logicalHeight g)
                   (appended (recorder g ticks)))) =
           map (\<lambda>tk. (replay (mouseX tk) (logicalWidth g) (logicalWidth g),
                        replay (mouseY tk) (logicalHeight g) (logicalHeight g))) ticks
       \<and> list_all (\<lambda>tk.
             mouseX tk - 1 \<le> replay (mouseX tk) (logicalWidth g) (logicalWidth g) \<and>
             replay (mouseX tk) (logicalWidth g) (logicalWidth g) \<le> mouseX tk \<and>
             mouseY tk - 1 \<le> replay (mouseY tk) (logicalHeight g) (logicalHeight g) \<and>
             replay (mouseY tk) (logicalHeight g) (logicalHeight g) \<le> mouseY tk) ticks"
proof -
  have "list_all (\<lambda>tk.
             mouseX tk - 1 \<le> replay (mouseX tk) (logicalWidth g) (logicalWidth g) \<and>
             replay (mouseX tk) (logicalWidth g) (logicalWidth g) \<le> mouseX tk \<and>
             mouseY tk - 1 \<le> replay (mouseY tk) (logicalHeight g) (logicalHeight g) \<and>
             replay (mouseY tk) (logicalHeight g) (logicalHeight g) \<le> mouseY tk) ticks"
    using assms(5)
  proof (induction ticks)
    case Nil
    then show ?case by simp
  next
    case (Cons tk ticks)
    then have r: "0 \<le> mouseX tk" "mouseX tk < logicalWidth g"
      "0 \<le> mouseY tk" "mouseY tk < logicalHeight g"
      by simp_all
    from replay_same_screen [OF r(1,2) assms(2)] replay_same_screen [OF r(3,4) assms(4)] Cons
    show ?case by simp
  qed
  with moves_of_recorded_log [OF assms(1,3)] show ?thesis by simp
qed

theorem C4_round_trip_witness:
  "list_all (\<lambda>tk. 0 \<le> mouseX tk \<and> mouseX tk < 1920 \<and> 0 \<le> mouseY tk \<and> mouseY tk < 1080)
     [\<lparr>offset = 1000, mouseX = 100, mouseY = 50, captured = True, encoded = True,
       saved = True, estimate = EstNoText\<rparr>]
   \<and> moves (events_of (player ParseFloat_dec denormalize 1920 1080
       (appended (recorder
          \<lparr>logicalWidth = 1920, logicalHeight = 1080, physicalWidth = 1920, physicalHeight = 1080\<rparr>
          [\<lparr>offset = 1000, mouseX = 100, mouseY = 50, captured = True, encoded = True,
            saved = True, estimate = EstNoText\<rparr>]))))
     = [(replay 100 1920 1920, replay 50 1080 1080)]
   \<and> 100 - 1 \<le> replay 100 1920 1920 \<and> replay 100 1920 1920 \<le> 100
   \<and> 50 - 1 \<le> replay 50 1080 1080 \<and> replay 50 1080 1080 \<le> 50"
  using C4_round_trip_within_one [of
      "\<lparr>logicalWidth = 1920, logicalHeight = 1080, physicalWidth = 1920, physicalHeight = 1080\<rparr>"
      "[\<lparr>offset = 1000, mouseX = 100, mouseY = 50, captured = True, encoded = True,
         saved = True, estimate = EstNoText\<rparr>]"]
  by simp

text \<open>
  Claim C7, as stated: a log recorded on 1920 by 1080 and played on 3840 by 2160 puts
  every position at exactly twice the recorded one. The row the recorder writes for the
  pointer at (1, 1) is \<^verbatim>\<open>1000,0.00052083,0.00092593\<close>, and the player moves to (1, 2):
  \<open>0.00052083 * 3840\<close> is just below 2 and the conversion to \<^verbatim>\<open>int\<close> drops the fraction.
\<close>

theorem C7_position_one_not_doubled:
  "events_of (player ParseFloat_dec denormalize 3840 2160
     (appended (recorder
        \<lparr>logicalWidth = 1920, logicalHeight = 1080, physicalWidth = 1920, physicalHeight = 1080\<rparr>
        [\<lparr>offset = 1000, mouseX = 1, mouseY = 1, captured = True, encoded = True,
          saved = True, estimate = EstNoText\<rparr>])))
   = [Move 1 2]"
  by code_simp

text \<open>
  Claim C7, amended: a log that the recorder writes on a 1920 by 1080 screen, of positions
  inside or outside the screen whose coordinates are at most 2147483648 in absolute value,
  is played on a 3840 by 2160 screen with one command for each sample, and each position
  issued is, in each axis, twice the recorded coordinate or the integer next to it on the
  side of zero: \<open>2 * x\<close> or \<open>2 * x - 1\<close> for a coordinate \<open>x\<close> that is not negative,
  \<open>2 * x\<close> or \<open>2 * x + 1\<close> for a negative one.
\<close>

theorem C7_doubled_within_one:
  assumes "logicalWidth g = 1920" and "logicalHeight g = 1080"
    and "list_all (\<lambda>tk. \<bar>mouseX tk\<bar> \<le> 2147483648 \<and> \<bar>mouseY tk\<bar> \<le> 2147483648) ticks"
  shows "moves (events_of (player ParseFloat_dec denormalize 3840 2160
                   (appended (recorder g ticks)))) =
           map (\<lambda>tk. (replay (mouseX tk) 1920 3840, replay (mouseY tk) 1080 2160)) ticks
       \<and> list_all (\<lambda>tk.
             (if 0 \<le> mouseX tk
              then 2 * mouseX tk - 1 \<le> replay (mouseX tk) 1920 3840 \<and>
                   replay (mouseX tk) 1920 3840 \<le> 2 * mouseX tk
              else 2 * mouseX tk \<le> replay (mouseX tk) 1920 3840 \<and>
                   replay (mouseX tk) 1920 3840 \<le> 2 * mouseX tk + 1) \<and>
             (if 0 \<le> mouseY tk
              then 2 * mouseY tk - 1 \<le> replay (mouseY tk) 1080 2160 \<and>
                   replay (mouseY tk) 1080 2160 \<le> 2 * mouseY tk
              else 2 * mouseY tk \<le> replay (mouseY tk) 1080 2160 \<and>
                   replay (mouseY tk) 1080 2160 \<le> 2 * mouseY tk + 1)) ticks"
proof -
  have "list_all (\<lambda>tk.
             (if 0 \<le> mouseX tk
              then 2 * mouseX tk - 1 \<le> replay (mouseX tk) 1920 3840 \<and>
                   replay (mouseX tk) 1920 3840 \<le> 2 * mouseX tk
              else 2 * mouseX tk \<le> replay (mouseX tk) 1920 3840 \<and>
                   replay (mouseX tk) 1920 3840 \<le> 2 * mouseX tk + 1) \<and>
             (if 0 \<le> mouseY tk
              then 2 * mouseY tk - 1 \<le> replay (mouseY tk) 1080 2160 \<and>
                   replay (mouseY tk) 1080 2160 \<le> 2 * mouseY tk
              else 2 * mouseY tk \<le> replay (mouseY tk) 1080 2160 \<and>
                   replay (mouseY tk) 1080 2160 \<le> 2 * mouseY tk + 1)) ticks"
    using assms(3)
  proof (induction ticks)
    case Nil
    then show ?case by simp
  next
    case (Cons tk ticks)
    then have r: "\<bar>mouseX tk\<bar> \<le> 2147483648" "\<bar>mouseY tk\<bar> \<le> 2147483648"
      by simp_all
    from replay_1920_3840_anywhere [OF r(1)] replay_1080_2160_anywhere [OF r(2)] Cons
    show ?case by simp
  qed
  moreover have "0 < logicalWidth g" "0 < logicalHeight g"
    using assms(1,2) by simp_all
  from moves_of_recorded_log [OF this, of 3840 2160 ticks]
  have "moves (events_of (player ParseFloat_dec denormalize 3840 2160
                   (appended (recorder g ticks)))) =
           map (\<lambda>tk. (replay (mouseX tk) 1920 3840, replay (mouseY tk) 1080 2160)) ticks"
    by (simp add: assms(1,2))
  ultimately show ?thesis by (simp only: simp_thms)
qed

theorem C7_doubled_witness:
  "list_all (\<lambda>tk. \<bar>mouseX tk\<bar> \<le> 2147483648 \<and> \<bar>mouseY tk\<bar> \<le> 2147483648)
     [\<lparr>offset = 1000, mouseX = 100, mouseY = 50, captured = True, encoded = True,
       saved = True, estimate = EstNoText\<rparr>,
      \<lparr>offset = 2000, mouseX = - 1, mouseY = 1200, captured = True, encoded = True,
       saved = True, estimate = EstNoText\<rparr>]
   \<and> moves (events_of (player ParseFloat_dec denormalize 3840 2160
       (appended (recorder
          \<lparr>logicalWidth = 1920, logicalHeight = 1080, physicalWidth = 1920, physicalHeight = 1080\<rparr>
          [\<lparr>offset = 1000, mouseX = 100, mouseY = 50, captured = True, encoded = True,
            saved = True, estimate = EstNoText\<rparr>,
           \<lparr>offset = 2000, mouseX = - 1, mouseY = 1200, captured = True, encoded = True,
            saved = True, estimate = EstNoText\<rparr>]))))
     = [(199, 100), (- 1, 2399)]
   \<and> replay 100 1920 3840 = 199 \<and> replay 50 1080 2160 = 100
   \<and> replay (- 1) 1920 3840 = - 1 \<and> replay 1200 1080 2160 = 2399"
proof -
  have v: "replay 100 1920 3840 = 199" "replay 50 1080 2160 = 100"
    "replay (- 1) 1920 3840 = - 1" "replay 1200 1080 2160 = 2399"
    by code_simp+
  show ?thesis
    using v C7_doubled_within_one [of
      "\<lparr>logicalWidth = 1920, logicalHeight = 1080, physicalWidth = 1920, physicalHeight = 1080\<rparr>"
      "[\<lparr>offset = 1000, mouseX = 100, mouseY = 50, captured = True, encoded = True,
         saved = True, estimate = EstNoText\<rparr>,
        \<lparr>offset = 2000, mouseX = - 1, mouseY = 1200, captured = True, encoded = True,
         saved = True, estimate = EstNoText\<rparr>]"]
    by simp
qed

section \<open>Further properties of the two programs\<close>

lemma length_parsed_skipped:
  "length (parsed parse rows) + length (skipped parse rows) = length rows"
  by (induction rows) (simp_all split: sum.splits)

text \<open>
  Every data row of a log that \<^verbatim>\<open>ReadAll\<close> accepts is either skipped with one diagnostic
  or played with one positioning command, and the commands come in the order of the file:
  the positions issued are those of the rows that parse, the diagnostics those of the
  others, and together they account for every row. This holds for both players.
\<close>

theorem rows_skipped_or_played:
  "moves (play_rows parse i l rows) = map snd (parsed parse rows)
   \<and> diags (play_rows parse i l rows) = skipped parse rows
   \<and> length (parsed parse rows) + length (skipped parse rows) = length rows"
  by (simp add: moves_play_rows diags_play_rows length_parsed_skipped)

text \<open>
  The scenario of the specification with a number that does not parse: of ten rows, the
  fourth has the field \<^verbatim>\<open>0.4x000000\<close>. The player logs one diagnostic for it and plays
  the nine others in order; the sleep after the skipped row spans the two seconds from the
  third row to the fifth.
\<close>

theorem unparsable_row_skipped_alone:
  "player ParseFloat_dec denormalize 1920 1080
     [header,
      [''1000'', ''0.10000000'', ''0.10000000''],
      [''2000'', ''0.20000000'', ''0.20000000''],
      [''3000'', ''0.30000000'', ''0.30000000''],
      [''4000'', ''0.4x000000'', ''0.40000000''],
      [''5000'', ''0.50000000'', ''0.50000000''],
      [''6000'', ''0.60000000'', ''0.60000000''],
      [''7000'', ''0.70000000'', ''0.70000000''],
      [''8000'', ''0.80000000'', ''0.80000000''],
      [''9000'', ''0.90000000'', ''0.90000000''],
      [''10000'', ''0.95000000'', ''0.95000000'']]
   = Played
     [Move 192 108, Sleep 1000000000, Move 384 216, Sleep 1000000000, Move 576 324,
      Diag (BadX ''0.4x000000''),
      Sleep 2000000000, Move 960 540, Sleep 1000000000, Move 1152 648,
      Sleep 1000000000, Move 1344 756, Sleep 1000000000, Move 1536 864,
      Sleep 1000000000, Move 1728 972, Sleep 1000000000, Move 1824 1026]"
  by code_simp

text \<open>
  The player accepts what the recorder writes: on a geometry with positive logical
  dimensions, a log written by the recorder is played without any diagnostic, with one
  positioning command for each tick of the recording, whatever screen it is played on.
\<close>

theorem recorded_log_played_in_full:
  assumes "0 < logicalWidth g" and "0 < logicalHeight g"
  shows "diags (events_of (player ParseFloat_dec denormalize w h (appended (recorder g ticks)))) = []
    \<and> length (moves (events_of (player ParseFloat_dec denormalize w h
          (appended (recorder g ticks))))) = length ticks"
  using moves_of_recorded_log [OF assms, of w h ticks] diags_of_recorded_log [OF assms, of w h ticks]
  by simp

theorem recorded_log_played_witness:
  "diags (events_of (player ParseFloat_dec denormalize 3840 2160 (appended (recorder
      \<lparr>logicalWidth = 1920, logicalHeight = 1080, physicalWidth = 1920, physicalHeight = 1080\<rparr>
      [\<lparr>offset = 1000, mouseX = 100, mouseY = 50, captured = True, encoded = False,
        saved = True, estimate = EstError\<rparr>])))) = []
   \<and> length (moves (events_of (player ParseFloat_dec denormalize 3840 2160 (appended (recorder
      \<lparr>logicalWidth = 1920, logicalHeight = 1080, physicalWidth = 1920, physicalHeight = 1080\<rparr>
      [\<lparr>offset = 1000, mouseX = 100, mouseY = 50, captured = True, encoded = False,
        saved = True, estimate = EstError\<rparr>]))))) = 1"
  using recorded_log_played_in_full [of
      "\<lparr>logicalWidth = 1920, logicalHeight = 1080, physicalWidth = 1920, physicalHeight = 1080\<rparr>"
      3840 2160
      "[\<lparr>offset = 1000, mouseX = 100, mouseY = 50, captured = True, encoded = False,
         saved = True, estimate = EstError\<rparr>]"]
  by simp

text \<open>
  Any record whose field count differs from the header's makes \<^verbatim>\<open>ReadAll\<close> fail, and the
  players then stop before the loop: no such row is ever skipped by the loop's own test.
\<close>

lemma short_row_is_fatal:
  assumes "r \<in> set rows" and "length r \<noteq> length h"
  shows "play_file parse (h # rows) = Fatal ErrFieldCount"
proof -
  have "\<not> list_all (\<lambda>r. length r = length h) rows"
    using assms by (auto simp: list_all_iff)
  then show ?thesis
    by (simp add: play_file_def ReadAll_def)
qed

text \<open>
  When the first data row parses, no sleep precedes the first positioning command. When
  it is skipped and the second parses, the player sleeps the whole offset of the second
  row before its first command.
\<close>

lemma first_row_played_without_sleep:
  assumes "parse r = Inr (t, x, y)"
  shows "play_rows parse 0 0 (r # rest) = Move x y # play_rows parse (Suc 0) t rest"
  using assms by simp

lemma skipped_first_row_sleeps:
  assumes "parse r0 = Inl d" and "parse r1 = Inr (t, x, y)"
  shows "play_rows parse 0 0 (r0 # r1 # rest) =
           Diag d # Sleep (delay 0 t) # Move x y # play_rows parse (Suc (Suc 0)) t rest"
  using assms by simp

end
